theory Spec2Isabelle
  imports Complex_Main "HOL-Library.AList" "HOL-Library.Sublist" "HOL-Library.Multiset"
    "HOL-Library.Log_Nat"
begin

section \<open>The RENPHO import pipeline\<close>

text \<open>
  A shallow embedding of the import services of the health tracker:
  \<^verbatim>\<open>CsvParsingService\<close> (csv-parsing.service.ts), \<^verbatim>\<open>ImportValidationService\<close>
  (import-validation.service.ts) and \<^verbatim>\<open>RenphoImportService\<close> (renpho-import.service.ts),
  over the types of renpho-import.types.ts.

  Conventions of the embedding.
  \<^item> A JavaScript \<^verbatim>\<open>number\<close> is the real number it stands for; \<^verbatim>\<open>NaN\<close>, the infinities and
    the sign of zero are outside the model. Comparisons are exact. The arithmetic of the
    averaging (\<^verbatim>\<open>+\<close>, \<^verbatim>\<open>*\<close>, \<^verbatim>\<open>/\<close>) rounds each result to the nearest binary64 value,
    a tie to the even significand (\<open>binary64\<close>, with the subnormal numbers; a result beyond
    the largest double is outside the model). The height of the consistency check is
    compared as a real number. Counts, indices and lengths are \<open>nat\<close>.
  \<^item> A JavaScript string is a \<open>string\<close> (a list of 8-bit characters); the white space of
    \<^verbatim>\<open>trim\<close> and \<^verbatim>\<open>parseInt\<close> is the ASCII white space.
  \<^item> A thrown exception is the left summand of a sum type.
  \<^item> A plain object used as a dictionary (\<^verbatim>\<open>Record<string, T[]>\<close>) is an association list
    in insertion order, with distinct keys.
\<close>

subsection \<open>Strings\<close>

definition is_digit :: "char \<Rightarrow> bool" where
  "is_digit c = (c \<in> set ''0123456789'')"

definition is_space :: "char \<Rightarrow> bool" where
  "is_space c = (c \<in> set [CHR '' '', CHR 0x09, CHR 0x0A, CHR 0x0B, CHR 0x0C, CHR 0x0D])"

text \<open>\<^verbatim>\<open>String.prototype.trim\<close>.\<close>

definition trim :: "string \<Rightarrow> string" where
  "trim s = rev (dropWhile is_space (rev (dropWhile is_space s)))"

text \<open>\<^verbatim>\<open>s.split(c)\<close> for a one-character separator: never the empty list.\<close>

fun js_split :: "char \<Rightarrow> string \<Rightarrow> string list" where
  "js_split c [] = [[]]"
| "js_split c (x # xs) =
     (if x = c then [] # js_split c xs
      else (case js_split c xs of
              [] \<Rightarrow> [[x]]
            | p # ps \<Rightarrow> (x # p) # ps))"

text \<open>\<^verbatim>\<open>s.padStart(n, c)\<close> for a one-character filler.\<close>

definition padStart :: "nat \<Rightarrow> char \<Rightarrow> string \<Rightarrow> string" where
  "padStart n c s = replicate (n - length s) c @ s"

text \<open>The decimal digits of a natural number, as a template literal prints an integer.\<close>

definition digit_char :: "nat \<Rightarrow> char" where
  "digit_char d = ''0123456789'' ! d"

function nat_to_string :: "nat \<Rightarrow> string" where
  "nat_to_string n =
     (if n < 10 then [digit_char n]
      else nat_to_string (n div 10) @ [digit_char (n mod 10)])"
  by pat_completeness auto
termination
  by (relation "measure (\<lambda>n. n)") auto

declare nat_to_string.simps [simp del]

text \<open>
  \<^verbatim>\<open>parseInt(s)\<close> with no radix: leading white space is skipped, a sign is read, a prefix
  \<^verbatim>\<open>0x\<close> selects base 16, and the longest prefix of digits is the value; \<open>None\<close> is
  \<^verbatim>\<open>NaN\<close>.
\<close>

definition digit_value :: "nat \<Rightarrow> char \<Rightarrow> nat option" where
  "digit_value radix c =
     (let n = (of_char c :: nat);
          v = (if 48 \<le> n \<and> n \<le> 57 then Some (n - 48)
               else if 97 \<le> n \<and> n \<le> 102 then Some (n - 87)
               else if 65 \<le> n \<and> n \<le> 70 then Some (n - 55)
               else None)
      in case v of
           None \<Rightarrow> None
         | Some d \<Rightarrow> if d < radix then Some d else None)"

fun digits_prefix :: "nat \<Rightarrow> nat option \<Rightarrow> string \<Rightarrow> nat option" where
  "digits_prefix radix acc [] = acc"
| "digits_prefix radix acc (c # cs) =
     (case digit_value radix c of
        None \<Rightarrow> acc
      | Some v \<Rightarrow>
          digits_prefix radix (Some ((case acc of None \<Rightarrow> 0 | Some a \<Rightarrow> a) * radix + v)) cs)"

definition parseInt :: "string \<Rightarrow> int option" where
  "parseInt s =
     (let t = dropWhile is_space s;
          neg = (case t of c # _ \<Rightarrow> c = CHR ''-'' | [] \<Rightarrow> False);
          u = (case t of c # cs \<Rightarrow> if c = CHR ''-'' \<or> c = CHR ''+'' then cs else t | [] \<Rightarrow> t);
          hex = (take 2 u = ''0x'' \<or> take 2 u = ''0X'');
          v = (if hex then digits_prefix 16 None (drop 2 u) else digits_prefix 10 None u)
      in case v of
           None \<Rightarrow> None
         | Some n \<Rightarrow> Some (if neg then - int n else int n))"

subsection \<open>Types (renpho-import.types.ts)\<close>

text \<open>
  The columns of a raw row, with names that Isabelle accepts: \<open>Hora\<close> is \<^verbatim>\<open>' Hora'\<close>,
  \<open>Peso_kg\<close> is \<^verbatim>\<open>' Peso(kg)'\<close>, and so on in the order of the interface.
\<close>

record RenphoRawData =
  Fecha :: string
  Hora :: string
  Peso_kg :: real
  IMC :: real
  Grasa_corporal :: real
  Musculo_esqueletico :: real
  Peso_corporal_sin_grasa :: real
  Grasa_subcutanea :: real
  Grasa_visceral :: real
  Agua_corporal :: real
  Masa_muscular :: real
  Masa_osea :: real
  Proteina :: real
  Tasa_Metabolica_Basal :: real
  Edad_metabolica :: real
  Tipo_de_cuerpo :: real

text \<open>The field \<^verbatim>\<open>source\<close> has the literal type \<^verbatim>\<open>'renpho_import'\<close>.\<close>

datatype source_tag = renpho_import

record TransformedMeasurement =
  date :: string
  time :: string
  weight :: real
  bmi :: real
  body_fat_percentage :: real
  skeletal_muscle_percentage :: real
  fat_free_body_weight :: real
  subcutaneous_fat_percentage :: real
  visceral_fat :: real
  body_water_percentage :: real
  muscle_mass :: real
  bone_mass :: real
  protein_percentage :: real
  basal_metabolic_rate :: real
  metabolic_age :: real
  body_type :: real
  source :: source_tag

datatype ImportStrategy = average | keep_all

text \<open>
  The fields \<^verbatim>\<open>date\<close> and \<^verbatim>\<open>count\<close> of a \<^verbatim>\<open>DuplicateDetection\<close> are \<open>dup_date\<close> and
  \<open>dup_count\<close> here; the count is always the length of a bucket.
\<close>

record DuplicateDetection =
  dup_date :: string
  dup_count :: nat

record ValidationResult =
  errors :: "string list"
  warnings :: "string list"
  isValid :: bool

datatype error_code = INVALID_FILE | PARSING_ERROR | VALIDATION_ERROR | IMPORT_ERROR

text \<open>
  What the code passes as \<^verbatim>\<open>details\<close> of a \<^verbatim>\<open>RenphoImportError\<close>: nothing, the row and
  its index, the validation errors, or the exception it caught (its message).
\<close>

datatype error_details =
    No_details
  | Row_index RenphoRawData nat
  | Validation_errors "string list"
  | Caught string

record RenphoImportError =
  message :: string
  code :: error_code
  details :: error_details

subsection \<open>CsvParsingService.transformRenphoData\<close>

text \<open>\<^verbatim>\<open>Number(x || 0)\<close> on a number: a falsy \<^verbatim>\<open>x\<close> (zero) is replaced by \<^verbatim>\<open>0\<close>.\<close>

definition or_zero :: "real \<Rightarrow> real" where
  "or_zero x = (if x = 0 then 0 else x)"

text \<open>
  The body of the \<^verbatim>\<open>map\<close> callback for the row at \<open>index\<close>. The only \<^verbatim>\<open>throw\<close> is the one
  on a date without exactly three parts; the \<^verbatim>\<open>catch\<close> wraps it with the row number. The
  schema check of the callback only logs, so it is not part of the result.
\<close>

definition transformRow :: "RenphoRawData \<Rightarrow> nat \<Rightarrow> RenphoImportError + TransformedMeasurement" where
  "transformRow row index =
     (let dateParts = js_split CHR ''/'' (Fecha row) in
      if length dateParts \<noteq> 3 then
        Inl \<lparr> message = ''Failed to transform row '' @ nat_to_string (index + 1) @ '': '' @
                         ''Invalid date format: '' @ Fecha row,
              code = PARSING_ERROR,
              details = Row_index row index \<rparr>
      else
        let day = dateParts ! 0;
            month = dateParts ! 1;
            year = dateParts ! 2;
            fullYear = (if (case parseInt year of None \<Rightarrow> False | Some y \<Rightarrow> y < 50)
                        then ''20'' @ year else ''19'' @ year);
            isoDate = fullYear @ ''-'' @ padStart 2 CHR ''0'' month @ ''-'' @ padStart 2 CHR ''0'' day;
            cleanTime = trim (Hora row)
        in Inr \<lparr> date = isoDate,
                 time = cleanTime,
                 weight = Peso_kg row,
                 bmi = IMC row,
                 body_fat_percentage = Grasa_corporal row,
                 skeletal_muscle_percentage = or_zero (Musculo_esqueletico row),
                 fat_free_body_weight = or_zero (Peso_corporal_sin_grasa row),
                 subcutaneous_fat_percentage = or_zero (Grasa_subcutanea row),
                 visceral_fat = or_zero (Grasa_visceral row),
                 body_water_percentage = or_zero (Agua_corporal row),
                 muscle_mass = or_zero (Masa_muscular row),
                 bone_mass = or_zero (Masa_osea row),
                 protein_percentage = or_zero (Proteina row),
                 basal_metabolic_rate = or_zero (Tasa_Metabolica_Basal row),
                 metabolic_age = or_zero (Edad_metabolica row),
                 body_type = or_zero (Tipo_de_cuerpo row),
                 source = renpho_import \<rparr>)"

text \<open>\<^verbatim>\<open>rawData.map(...)\<close>: rows in order from \<open>index\<close>, stopping at the first throw.\<close>

fun transform_from :: "nat \<Rightarrow> RenphoRawData list \<Rightarrow> RenphoImportError + TransformedMeasurement list" where
  "transform_from index [] = Inr []"
| "transform_from index (row # rows) =
     (case transformRow row index of
        Inl e \<Rightarrow> Inl e
      | Inr m \<Rightarrow>
          (case transform_from (Suc index) rows of
             Inl e \<Rightarrow> Inl e
           | Inr ms \<Rightarrow> Inr (m # ms)))"

definition transformRenphoData :: "RenphoRawData list \<Rightarrow> RenphoImportError + TransformedMeasurement list" where
  "transformRenphoData rawData = transform_from 0 rawData"

subsection \<open>Plain objects as dictionaries\<close>

text \<open>
  \<^verbatim>\<open>grouped\<close> is created by the literal \<^verbatim>\<open>{}\<close>, so it inherits from \<^verbatim>\<open>Object.prototype\<close>:
  reading \<^verbatim>\<open>grouped[k]\<close> for one of the names below finds the inherited member (a function
  or the prototype object, both truthy) when \<^verbatim>\<open>grouped\<close> has no own property \<^verbatim>\<open>k\<close>.
\<close>

definition object_prototype_keys :: "string list" where
  "object_prototype_keys =
     [''constructor'', ''hasOwnProperty'', ''isPrototypeOf'', ''propertyIsEnumerable'',
      ''toLocaleString'', ''toString'', ''valueOf'', ''__proto__'',
      ''__defineGetter__'', ''__defineSetter__'', ''__lookupGetter__'', ''__lookupSetter__'']"

text \<open>
  A property key is an array index when it is the decimal form of an integer from \<open>0\<close> to
  \<open>2^32 - 2\<close>. \<^verbatim>\<open>Object.entries\<close> lists the array indices first, in ascending order, and
  then the other string keys in insertion order.
\<close>

definition array_index :: "string \<Rightarrow> nat option" where
  "array_index k =
     (if k \<noteq> [] \<and> list_all is_digit k \<and> (k = ''0'' \<or> hd k \<noteq> CHR ''0'') then
        (case digits_prefix 10 None k of
           None \<Rightarrow> None
         | Some n \<Rightarrow> if n \<le> 4294967294 then Some n else None)
      else None)"

definition object_entries :: "(string \<times> 'v) list \<Rightarrow> (string \<times> 'v) list" where
  "object_entries obj =
     sort_key (\<lambda>(k, v). case array_index k of Some n \<Rightarrow> n | None \<Rightarrow> 0)
       (filter (\<lambda>(k, v). array_index k \<noteq> None) obj)
     @ filter (\<lambda>(k, v). array_index k = None) obj"

datatype exn = TypeError string

text \<open>\<^verbatim>\<open>xs.map(f)\<close> for a callback that may throw: the first throw ends the call.\<close>

fun map_throw :: "('a \<Rightarrow> 'e + 'b) \<Rightarrow> 'a list \<Rightarrow> 'e + 'b list" where
  "map_throw f [] = Inr []"
| "map_throw f (x # xs) =
     (case f x of
        Inl e \<Rightarrow> Inl e
      | Inr y \<Rightarrow> (case map_throw f xs of Inl e \<Rightarrow> Inl e | Inr ys \<Rightarrow> Inr (y # ys)))"

subsection \<open>CsvParsingService.groupByDate\<close>

type_synonym grouped_records = "(string \<times> TransformedMeasurement list) list"

text \<open>
  One round of the \<^verbatim>\<open>forEach\<close>:
  \<^verbatim>\<open>if (!grouped[record.date]) grouped[record.date] = []; grouped[record.date].push(record)\<close>.
  An own bucket is an array, hence truthy. With no own bucket, an inherited member of that
  name is truthy as well, no bucket is created, and the call of its missing \<^verbatim>\<open>push\<close>
  throws a \<^verbatim>\<open>TypeError\<close> (the message is the one of V8).
\<close>

definition group_push :: "grouped_records \<Rightarrow> TransformedMeasurement \<Rightarrow> exn + grouped_records" where
  "group_push grouped record =
     (case map_of grouped (date record) of
        Some records \<Rightarrow> Inr (AList.update (date record) (records @ [record]) grouped)
      | None \<Rightarrow>
          if date record \<in> set object_prototype_keys
          then Inl (TypeError ''grouped[record.date].push is not a function'')
          else Inr (grouped @ [(date record, [record])]))"

fun group_loop :: "grouped_records \<Rightarrow> TransformedMeasurement list \<Rightarrow> exn + grouped_records" where
  "group_loop grouped [] = Inr grouped"
| "group_loop grouped (record # rest) =
     (case group_push grouped record of
        Inl e \<Rightarrow> Inl e
      | Inr grouped' \<Rightarrow> group_loop grouped' rest)"

text \<open>The result \<^verbatim>\<open>{ grouped, duplicates }\<close> is the pair \<open>(grouped, duplicates)\<close>.\<close>

definition find_duplicates :: "grouped_records \<Rightarrow> DuplicateDetection list" where
  "find_duplicates grouped =
     map (\<lambda>(d, records). \<lparr> dup_date = d, dup_count = length records \<rparr>)
       (filter (\<lambda>(d, records). length records > 1) (object_entries grouped))"

definition groupByDate ::
  "TransformedMeasurement list \<Rightarrow> exn + (grouped_records \<times> DuplicateDetection list)" where
  "groupByDate data =
     (case group_loop [] data of
        Inl e \<Rightarrow> Inl e
      | Inr grouped \<Rightarrow> Inr (grouped, find_duplicates grouped))"

subsection \<open>Binary floating point\<close>

text \<open>
  The powers of two, and the exponent \<open>\<lfloor>log\<^sub>2 \<bar>x\<bar>\<rfloor>\<close> of a real number that is not zero,
  computed on integers.
\<close>

definition pow2 :: "int \<Rightarrow> real" where
  "pow2 k = (if 0 \<le> k then 2 ^ nat k else 1 / 2 ^ nat (- k))"

definition exponent :: "real \<Rightarrow> int" where
  "exponent x = (if 1 \<le> \<bar>x\<bar> then bitlen \<lfloor>\<bar>x\<bar>\<rfloor> - 1 else - bitlen (\<lceil>1 / \<bar>x\<bar>\<rceil> - 1))"

text \<open>
  The unit in the last place of a binary64 number near \<open>x\<close>: 52 binary places below the
  exponent, which for the subnormal numbers stays at \<open>-1022\<close>.
\<close>

definition ulp_exponent :: "real \<Rightarrow> int" where
  "ulp_exponent x = max (exponent x) (- 1022) - 52"

definition ulp :: "real \<Rightarrow> real" where
  "ulp x = pow2 (ulp_exponent x)"

text \<open>Rounding to the nearest integer, a tie to the even one.\<close>

definition round_half_even :: "real \<Rightarrow> int" where
  "round_half_even x =
     (let n = \<lfloor>x\<rfloor>; r = x - of_int n
      in if r < 1 / 2 then n else if 1 / 2 < r then n + 1 else if even n then n else n + 1)"

text \<open>
  The Number value for \<open>x\<close>: the binary64 value nearest to \<open>x\<close>, a tie to the even
  significand (IEEE 754 \<^emph>\<open>roundTiesToEven\<close>).
\<close>

definition binary64 :: "real \<Rightarrow> real" where
  "binary64 x = (if x = 0 then 0 else of_int (round_half_even (x / ulp x)) * ulp x)"

text \<open>The operators \<^verbatim>\<open>+\<close>, \<^verbatim>\<open>*\<close> and \<^verbatim>\<open>/\<close> on numbers: the exact result, rounded.\<close>

definition Number_add :: "real \<Rightarrow> real \<Rightarrow> real" where
  "Number_add x y = binary64 (x + y)"

definition Number_multiply :: "real \<Rightarrow> real \<Rightarrow> real" where
  "Number_multiply x y = binary64 (x * y)"

definition Number_divide :: "real \<Rightarrow> real \<Rightarrow> real" where
  "Number_divide x y = binary64 (x / y)"

subsection \<open>CsvParsingService.averageDailyMeasurements\<close>

text \<open>
  \<^verbatim>\<open>Math.round\<close> rounds to the nearest integer, a tie towards \<open>+\<infinity>\<close>; its result is exact.
  \<^verbatim>\<open>Math.pow\<close> is called as \<^verbatim>\<open>Math.pow(10, decimals)\<close> with \<^verbatim>\<open>decimals\<close> equal to 1 only.
\<close>

definition Math_round :: "real \<Rightarrow> real" where
  "Math_round x = of_int \<lfloor>x + 1 / 2\<rfloor>"

definition Math_pow :: "real \<Rightarrow> nat \<Rightarrow> real" where
  "Math_pow b n = binary64 (b ^ n)"

definition roundToDecimal :: "real \<Rightarrow> nat \<Rightarrow> real" where
  "roundToDecimal num decimals =
     Number_divide (Math_round (Number_multiply num (Math_pow 10 decimals))) (Math_pow 10 decimals)"

text \<open>\<^verbatim>\<open>records.reduce((sum, r) => sum + r.f, 0)\<close>.\<close>

definition reduce_sum :: "(TransformedMeasurement \<Rightarrow> real) \<Rightarrow> TransformedMeasurement list \<Rightarrow> real" where
  "reduce_sum f records = foldl (\<lambda>sum r. Number_add sum (f r)) 0 records"

text \<open>
  The callback on one entry \<^verbatim>\<open>[date, records]\<close>. On an empty bucket \<^verbatim>\<open>records[0]\<close> is
  \<^verbatim>\<open>undefined\<close> and reading \<^verbatim>\<open>first.time\<close> throws (the message is the one of V8).
\<close>

definition average_entry :: "string \<times> TransformedMeasurement list \<Rightarrow> exn + TransformedMeasurement" where
  "average_entry entry =
     (case entry of (d, records) \<Rightarrow>
        let count = real (length records) in
        (case records of
           [] \<Rightarrow> Inl (TypeError ''Cannot read properties of undefined (reading 'time')'')
         | first # _ \<Rightarrow>
            Inr \<lparr> date = d,
                  time = time first,
                  weight = roundToDecimal (Number_divide (reduce_sum weight records) count) 1,
                  bmi = roundToDecimal (Number_divide (reduce_sum bmi records) count) 1,
                  body_fat_percentage = roundToDecimal (Number_divide (reduce_sum body_fat_percentage records) count) 1,
                  skeletal_muscle_percentage =
                    roundToDecimal (Number_divide (reduce_sum skeletal_muscle_percentage records) count) 1,
                  fat_free_body_weight = roundToDecimal (Number_divide (reduce_sum fat_free_body_weight records) count) 1,
                  subcutaneous_fat_percentage =
                    roundToDecimal (Number_divide (reduce_sum subcutaneous_fat_percentage records) count) 1,
                  visceral_fat = roundToDecimal (Number_divide (reduce_sum visceral_fat records) count) 1,
                  body_water_percentage = roundToDecimal (Number_divide (reduce_sum body_water_percentage records) count) 1,
                  muscle_mass = roundToDecimal (Number_divide (reduce_sum muscle_mass records) count) 1,
                  bone_mass = roundToDecimal (Number_divide (reduce_sum bone_mass records) count) 1,
                  protein_percentage = roundToDecimal (Number_divide (reduce_sum protein_percentage records) count) 1,
                  basal_metabolic_rate = Math_round (Number_divide (reduce_sum basal_metabolic_rate records) count),
                  metabolic_age = Math_round (Number_divide (reduce_sum metabolic_age records) count),
                  body_type = Math_round (Number_divide (reduce_sum body_type records) count),
                  source = renpho_import \<rparr>))"

definition averageDailyMeasurements :: "grouped_records \<Rightarrow> exn + TransformedMeasurement list" where
  "averageDailyMeasurements grouped = map_throw average_entry (object_entries grouped)"

subsection \<open>The JavaScript runtime\<close>

text \<open>
  What the validator asks of the runtime and the repository does not define: the parsing
  of a date string (\<^verbatim>\<open>new Date(s).getTime()\<close>, in milliseconds, \<open>None\<close> for an invalid
  date), the clock (\<^verbatim>\<open>new Date()\<close>, and that date with its year set back by ten), and the
  printing of dates and of numbers that are not integers.
\<close>

record js_runtime =
  Date_parse :: "string \<Rightarrow> int option"
  Date_now :: int
  ten_years_ago :: int
  toLocaleDateString :: "int \<Rightarrow> string"
  Number_toString :: "real \<Rightarrow> string"
  toFixed :: "real \<Rightarrow> nat \<Rightarrow> string"

subsection \<open>weightValidationSchema\<close>

text \<open>
  \<^verbatim>\<open>z.number().min(lo, lo_msg).max(hi, hi_msg)\<close> on a number: every failed check adds an
  issue; the bounds are inclusive. An issue is its path and its message.
\<close>

type_synonym issue = "string list \<times> string"

definition number_min_max :: "string list \<Rightarrow> real \<Rightarrow> string \<Rightarrow> real \<Rightarrow> string \<Rightarrow> real \<Rightarrow> issue list" where
  "number_min_max path lo lo_msg hi hi_msg v =
     (if v < lo then [(path, lo_msg)] else []) @ (if v > hi then [(path, hi_msg)] else [])"

text \<open>
  \<^verbatim>\<open>weightValidationSchema.safeParse({weight, bmi, body_fat_percentage})\<close>: the issues, in
  the order of the keys of the schema; the parse succeeds when there is none.
\<close>

definition weightValidationSchema :: "real \<Rightarrow> real \<Rightarrow> real \<Rightarrow> issue list" where
  "weightValidationSchema w b f =
     number_min_max [''weight''] 30 ''Minimum weight is 30kg'' 300 ''Maximum weight is 300kg'' w
     @ number_min_max [''bmi''] 10 ''BMI too low'' 60 ''BMI too high'' b
     @ number_min_max [''body_fat_percentage''] 3 ''Body fat percentage too low''
         70 ''Body fat percentage too high'' f"

text \<open>\<^verbatim>\<open>path.join('.')\<close>.\<close>

fun js_join :: "string \<Rightarrow> string list \<Rightarrow> string" where
  "js_join sep [] = []"
| "js_join sep [x] = x"
| "js_join sep (x # y # ys) = x @ sep @ js_join sep (y # ys)"

subsection \<open>ImportValidationService\<close>

text \<open>\<^verbatim>\<open>/^\d{4}-\d{2}-\d{2}$/.test(s)\<close>.\<close>

definition iso_shape :: "string \<Rightarrow> bool" where
  "iso_shape s =
     (length s = 10 \<and> list_all is_digit (take 4 s) \<and> s ! 4 = CHR ''-'' \<and>
      list_all is_digit (take 2 (drop 5 s)) \<and> s ! 7 = CHR ''-'' \<and> list_all is_digit (drop 8 s))"

definition isValidDate :: "js_runtime \<Rightarrow> string \<Rightarrow> bool" where
  "isValidDate rt dateString = (Date_parse rt dateString \<noteq> None \<and> iso_shape dateString)"

text \<open>
  \<^verbatim>\<open>/^(\d{1,2}):(\d{2})(:(\d{2}))?\s*(a\.m\.|p\.m\.|AM|PM)?$/i\<close> on the trimmed string:
  one or two digits, a colon, two digits, optionally a colon and two digits, white space,
  and optionally one of the four suffixes in any letter case.
\<close>

definition to_lower :: "char \<Rightarrow> char" where
  "to_lower c = (if 65 \<le> (of_char c :: nat) \<and> (of_char c :: nat) \<le> 90
                 then char_of ((of_char c :: nat) + 32) else c)"

fun match_digits :: "nat \<Rightarrow> string \<Rightarrow> string option" where
  "match_digits 0 s = Some s"
| "match_digits (Suc n) [] = None"
| "match_digits (Suc n) (c # cs) = (if is_digit c then match_digits n cs else None)"

definition match_colon :: "string \<Rightarrow> string option" where
  "match_colon s = (case s of c # cs \<Rightarrow> if c = CHR '':'' then Some cs else None | [] \<Rightarrow> None)"

definition match_hours :: "string \<Rightarrow> string option" where
  "match_hours s =
     (case Option.bind (match_digits 2 s) match_colon of
        Some r \<Rightarrow> Some r
      | None \<Rightarrow> Option.bind (match_digits 1 s) match_colon)"

definition match_seconds :: "string \<Rightarrow> string" where
  "match_seconds s =
     (case Option.bind (match_colon s) (match_digits 2) of Some r \<Rightarrow> r | None \<Rightarrow> s)"

definition time_suffixes :: "string list" where
  "time_suffixes = [[], ''a.m.'', ''p.m.'', ''am'', ''pm'']"

definition isValidTime :: "string \<Rightarrow> bool" where
  "isValidTime timeString =
     (case Option.bind (match_hours (trim timeString)) (match_digits 2) of
        None \<Rightarrow> False
      | Some r \<Rightarrow> map to_lower (dropWhile is_space (match_seconds r)) \<in> set time_suffixes)"

text \<open>\<^verbatim>\<open>xs.filter(Boolean)\<close> on strings drops the empty ones.\<close>

definition filter_Boolean :: "string list \<Rightarrow> string list" where
  "filter_Boolean xs = filter (\<lambda>s. s \<noteq> []) xs"

definition validateSingleMeasurement ::
  "js_runtime \<Rightarrow> TransformedMeasurement \<Rightarrow> nat \<Rightarrow> ValidationResult" where
  "validateSingleMeasurement rt measurement rowNumber =
     (let row = ''Row '' @ nat_to_string rowNumber @ '': '';
          num = Number_toString rt;
          errors1 =
            map (\<lambda>(path, msg). row @ js_join ''.'' path @ '': '' @ msg)
              (weightValidationSchema (weight measurement) (bmi measurement)
                 (body_fat_percentage measurement));
          warnings1 =
            (if skeletal_muscle_percentage measurement < 0 \<or> skeletal_muscle_percentage measurement > 100
             then [row @ ''Skeletal muscle percentage ('' @ num (skeletal_muscle_percentage measurement)
                     @ ''%) seems unusual'']
             else []);
          warnings2 =
            (if body_water_percentage measurement < 30 \<or> body_water_percentage measurement > 80
             then [row @ ''Body water percentage ('' @ num (body_water_percentage measurement)
                     @ ''%) seems unusual'']
             else []);
          warnings3 =
            (if visceral_fat measurement < 0 \<or> visceral_fat measurement > 30
             then [row @ ''Visceral fat level ('' @ num (visceral_fat measurement) @ '') seems unusual'']
             else []);
          warnings4 =
            (if basal_metabolic_rate measurement < 800 \<or> basal_metabolic_rate measurement > 4000
             then [row @ ''BMR ('' @ num (basal_metabolic_rate measurement) @ '' kcal) seems unusual'']
             else []);
          warnings5 =
            (if metabolic_age measurement < 10 \<or> metabolic_age measurement > 120
             then [row @ ''Metabolic age ('' @ num (metabolic_age measurement) @ '') seems unusual'']
             else []);
          errors2 =
            (if \<not> isValidDate rt (date measurement)
             then [row @ ''Invalid date format: '' @ date measurement]
             else []);
          warnings6 =
            (if \<not> isValidTime (time measurement)
             then [row @ ''Unusual time format: '' @ time measurement]
             else []);
          errs = errors1 @ errors2;
          warns = warnings1 @ warnings2 @ warnings3 @ warnings4 @ warnings5 @ warnings6
      in \<lparr> errors = filter_Boolean errs,
           warnings = filter_Boolean warns,
           isValid = (length errs = 0) \<rparr>)"

text \<open>
  \<^verbatim>\<open>validateDateRange\<close>: the dates that parse, their earliest and latest, and three warnings;
  \<open>daysDiff\<close> is \<^verbatim>\<open>Math.ceil\<close> of the span in days.
\<close>

definition validateDateRange :: "js_runtime \<Rightarrow> TransformedMeasurement list \<Rightarrow> ValidationResult" where
  "validateDateRange rt data =
     (case List.map_filter (\<lambda>m. Date_parse rt (date m)) data of
        [] \<Rightarrow> \<lparr> errors = [''No valid dates found in the data''], warnings = [], isValid = False \<rparr>
      | d # ds \<Rightarrow>
          (let minDate = fold min ds d;
               maxDate = fold max ds d;
               loc = toLocaleDateString rt;
               warnings1 =
                 (if maxDate > Date_now rt
                  then [''Found measurements dated in the future ('' @ loc maxDate @ '')'']
                  else []);
               warnings2 =
                 (if minDate < ten_years_ago rt
                  then [''Found very old measurements ('' @ loc minDate @ '')'']
                  else []);
               daysDiff = \<lceil>real_of_int (maxDate - minDate) / (1000 * 60 * 60 * 24)\<rceil>;
               warnings3 =
                 (if daysDiff > 365
                  then [''Data spans '' @ nat_to_string (nat daysDiff) @ '' days ('' @ loc minDate
                          @ '' to '' @ loc maxDate @ '')'']
                  else [])
           in \<lparr> errors = [], warnings = warnings1 @ warnings2 @ warnings3, isValid = True \<rparr>))"

text \<open>The predicate of the \<^verbatim>\<open>filter\<close> that collects \<^verbatim>\<open>bmiInconsistencies\<close>.\<close>

definition bmi_inconsistent :: "TransformedMeasurement \<Rightarrow> bool" where
  "bmi_inconsistent m =
     (if weight m \<le> 0 \<or> bmi m \<le> 0 then False
      else let estimatedHeight = sqrt (weight m / bmi m)
           in estimatedHeight < 1.2 \<or> estimatedHeight > 2.5)"

definition validateMeasurementConsistency ::
  "js_runtime \<Rightarrow> TransformedMeasurement list \<Rightarrow> ValidationResult" where
  "validateMeasurementConsistency rt data =
     (if length data < 2 then \<lparr> errors = [], warnings = [], isValid = True \<rparr>
      else
        let weights = filter (\<lambda>w. w > 0) (map weight data);
            warnings1 =
              (case weights of
                 [] \<Rightarrow> []
               | w # ws \<Rightarrow>
                   (if length weights > 1 then
                      (let minWeight = fold min ws w;
                           maxWeight = fold max ws w;
                           weightVariation = ((maxWeight - minWeight) / minWeight) * 100
                       in if weightVariation > 30
                          then [''Large weight variation detected: '' @ Number_toString rt minWeight
                                  @ ''kg to '' @ Number_toString rt maxWeight @ ''kg (''
                                  @ toFixed rt weightVariation 1 @ ''%)'']
                          else [])
                    else []));
            bmiInconsistencies = filter bmi_inconsistent data;
            warnings2 =
              (if length bmiInconsistencies > 0
               then [nat_to_string (length bmiInconsistencies)
                       @ '' measurements have inconsistent BMI calculations'']
               else [])
        in \<lparr> errors = [], warnings = warnings1 @ warnings2, isValid = True \<rparr>)"

text \<open>
  \<^verbatim>\<open>validateMeasurements\<close>. The rows are numbered from 1. The \<^verbatim>\<open>count\<close> of a duplicate is a
  length, a natural number.
\<close>

definition validateMeasurements ::
  "js_runtime \<Rightarrow> TransformedMeasurement list \<Rightarrow> DuplicateDetection list \<Rightarrow> ValidationResult" where
  "validateMeasurements rt data duplicates =
     (if length data = 0 then
        \<lparr> errors = [''No valid measurements found in the CSV file''], warnings = [], isValid = False \<rparr>
      else
        let rows = map (\<lambda>(rowNumber, measurement). validateSingleMeasurement rt measurement rowNumber)
                     (List.enumerate 1 data);
            errors1 = concat (map errors rows);
            warnings1 = concat (map warnings rows);
            warnings2 =
              (if length duplicates > 0
               then (''Found '' @ nat_to_string (length duplicates) @ '' dates with multiple measurements'')
                    # map (\<lambda>d. nat_to_string (dup_count d) @ '' measurements found for '' @ dup_date d)
                        duplicates
               else []);
            dateValidation = validateDateRange rt data;
            consistencyValidation = validateMeasurementConsistency rt data;
            errs = errors1 @ errors dateValidation;
            warns = warnings1 @ warnings2 @ warnings dateValidation @ warnings consistencyValidation
        in \<lparr> errors = filter_Boolean errs,
             warnings = filter_Boolean warns,
             isValid = (length errs = 0) \<rparr>)"

subsection \<open>RenphoImportService\<close>

record ParseResult =
  originalData :: "RenphoRawData list"
  transformedData :: "TransformedMeasurement list"
  grouped :: grouped_records
  duplicates :: "DuplicateDetection list"
  validation :: ValidationResult

text \<open>The field \<^verbatim>\<open>errors\<close> of an \<^verbatim>\<open>ImportResult\<close> is \<open>import_errors\<close> here.\<close>

record ImportResult =
  strategy :: ImportStrategy
  successful :: nat
  failed :: nat
  import_errors :: "string list"
  processedData :: "TransformedMeasurement list"

text \<open>
  \<^verbatim>\<open>parseFile\<close> after the CSV decoder has returned \<open>rawData\<close>: steps 2 to 4, inside the
  \<^verbatim>\<open>try\<close> whose \<^verbatim>\<open>catch\<close> passes a \<^verbatim>\<open>RenphoImportError\<close> on and wraps anything else.
\<close>

definition parseFile_rows :: "js_runtime \<Rightarrow> RenphoRawData list \<Rightarrow> RenphoImportError + ParseResult" where
  "parseFile_rows rt rawData =
     (if length rawData = 0 then
        Inl \<lparr> message = ''No data found in CSV file'', code = PARSING_ERROR,
              details = No_details \<rparr>
      else
        (case transformRenphoData rawData of
           Inl e \<Rightarrow> Inl e
         | Inr transformed \<Rightarrow>
             (case groupByDate transformed of
                Inl (TypeError msg) \<Rightarrow>
                  Inl \<lparr> message = ''Failed to parse RENPHO file: '' @ msg, code = PARSING_ERROR,
                        details = Caught msg \<rparr>
              | Inr (g, dups) \<Rightarrow>
                  Inr \<lparr> originalData = rawData,
                        transformedData = transformed,
                        grouped = g,
                        duplicates = dups,
                        validation = validateMeasurements rt transformed dups \<rparr>)))"

text \<open>
  What \<^verbatim>\<open>processImport\<close> does besides computing its result, in order: a call of
  \<^verbatim>\<open>averageDailyMeasurements\<close>, the two-second timer it awaits, and the batch call
  \<^verbatim>\<open>measurementsService.createBatch\<close>, which the source has only inside a comment.
\<close>

datatype effect =
    Average_daily
  | Set_timeout nat
  | Create_batch "TransformedMeasurement list"

text \<open>
  \<^verbatim>\<open>processImport\<close>: the effects, and the error the promise rejects with or the result it
  resolves to. The \<^verbatim>\<open>catch\<close> passes a \<^verbatim>\<open>RenphoImportError\<close> on and wraps anything else.
\<close>

definition processImport ::
  "ParseResult \<Rightarrow> ImportStrategy \<Rightarrow> effect list \<times> (RenphoImportError + ImportResult)" where
  "processImport parseResult strat =
     (if \<not> isValid (validation parseResult) then
        ([], Inl \<lparr> message = ''Cannot import data with validation errors. Please fix the errors first.'',
                   code = VALIDATION_ERROR,
                   details = Validation_errors (errors (validation parseResult)) \<rparr>)
      else
        (case (if strat = average
               then ([Average_daily], averageDailyMeasurements (grouped parseResult))
               else ([], Inr (transformedData parseResult))) of
           (effs, Inl (TypeError msg)) \<Rightarrow>
             (effs, Inl \<lparr> message = ''Import failed: '' @ msg, code = IMPORT_ERROR,
                          details = Caught msg \<rparr>)
         | (effs, Inr finalData) \<Rightarrow>
             (effs @ [Set_timeout 2000],
              Inr \<lparr> strategy = strat,
                    successful = length finalData,
                    failed = 0,
                    import_errors = [],
                    processedData = finalData \<rparr>)))"

text \<open>
  The comparator of \<^verbatim>\<open>previewData\<close>,
  \<^verbatim>\<open>(a, b) => new Date(b.date).getTime() - new Date(a.date).getTime()\<close>: \<^verbatim>\<open>NaN\<close> when a
  date does not parse, which \<^verbatim>\<open>sort\<close> reads as \<open>0\<close>.
\<close>

definition date_compare :: "js_runtime \<Rightarrow> TransformedMeasurement \<Rightarrow> TransformedMeasurement \<Rightarrow> int" where
  "date_compare rt a b =
     (case Date_parse rt (date b) of
        None \<Rightarrow> 0
      | Some tb \<Rightarrow> (case Date_parse rt (date a) of None \<Rightarrow> 0 | Some ta \<Rightarrow> tb - ta))"

text \<open>
  \<^verbatim>\<open>Array.prototype.sort\<close> is stable, and with a consistent comparator its result is the
  one of this insertion sort. With an inconsistent comparator (here: a date that does not
  parse) ECMAScript leaves the order to the implementation, and the insertion sort is one
  choice.
\<close>

fun insert_by :: "('a \<Rightarrow> 'a \<Rightarrow> int) \<Rightarrow> 'a \<Rightarrow> 'a list \<Rightarrow> 'a list" where
  "insert_by cmp x [] = [x]"
| "insert_by cmp x (y # ys) = (if cmp x y \<le> 0 then x # y # ys else y # insert_by cmp x ys)"

definition js_sort :: "('a \<Rightarrow> 'a \<Rightarrow> int) \<Rightarrow> 'a list \<Rightarrow> 'a list" where
  "js_sort cmp xs = foldr (insert_by cmp) xs []"

text \<open>\<^verbatim>\<open>xs.slice(0, end)\<close> for an integer \<open>end\<close>: a negative one counts from the end.\<close>

definition js_slice0 :: "int \<Rightarrow> 'a list \<Rightarrow> 'a list" where
  "js_slice0 e xs =
     (let len = int (length xs);
          final = (if e < 0 then max (len + e) 0 else min e len)
      in take (nat final) xs)"

text \<open>
  \<^verbatim>\<open>previewData\<close>: the preview, and the parse result after the call, since \<^verbatim>\<open>sort\<close> works in
  place and, for \<^verbatim>\<open>keep_all\<close>, on the array \<^verbatim>\<open>parseResult.transformedData\<close> itself. A
  \<^verbatim>\<open>TypeError\<close> of the averaging is not caught. The limit is an integer.
\<close>

definition previewData ::
  "js_runtime \<Rightarrow> ParseResult \<Rightarrow> ImportStrategy \<Rightarrow> int \<Rightarrow>
     exn + (TransformedMeasurement list \<times> ParseResult)" where
  "previewData rt parseResult strat limit =
     (if strat = average then
        (case averageDailyMeasurements (grouped parseResult) of
           Inl e \<Rightarrow> Inl e
         | Inr data \<Rightarrow> Inr (js_slice0 limit (js_sort (date_compare rt) data), parseResult))
      else
        (let sorted_data = js_sort (date_compare rt) (transformedData parseResult)
         in Inr (js_slice0 limit sorted_data, parseResult\<lparr> transformedData := sorted_data \<rparr>)))"

text \<open>The default value of the parameter \<^verbatim>\<open>limit\<close>.\<close>

definition previewData_default ::
  "js_runtime \<Rightarrow> ParseResult \<Rightarrow> ImportStrategy \<Rightarrow> exn + (TransformedMeasurement list \<times> ParseResult)" where
  "previewData_default rt parseResult strat = previewData rt parseResult strat 5"

section \<open>Definitions that follow the specification\<close>

subsection \<open>Source dates: day, month and a two-digit year\<close>

text \<open>
  A source date is a day and a month of one or two digits and a year of exactly two digits,
  separated by slashes. Its parts are read off without the code's \<open>js_split\<close>.
\<close>

definition not_slash :: "char \<Rightarrow> bool" where
  "not_slash c = (c \<noteq> CHR ''/'')"

definition dmy_day :: "string \<Rightarrow> string" where
  "dmy_day s = takeWhile not_slash s"

definition dmy_month :: "string \<Rightarrow> string" where
  "dmy_month s = takeWhile not_slash (drop (Suc (length (dmy_day s))) s)"

definition dmy_year :: "string \<Rightarrow> string" where
  "dmy_year s = drop (Suc (length (dmy_month s))) (drop (Suc (length (dmy_day s))) s)"

definition one_or_two_digits :: "string \<Rightarrow> bool" where
  "one_or_two_digits s = (s \<noteq> [] \<and> length s \<le> 2 \<and> list_all is_digit s)"

definition dmy_form :: "string \<Rightarrow> bool" where
  "dmy_form s =
     (s = dmy_day s @ ''/'' @ dmy_month s @ ''/'' @ dmy_year s \<and>
      one_or_two_digits (dmy_day s) \<and> one_or_two_digits (dmy_month s) \<and>
      length (dmy_year s) = 2 \<and> list_all is_digit (dmy_year s))"

definition decimal_value :: "string \<Rightarrow> nat" where
  "decimal_value s = foldl (\<lambda>a c. 10 * a + (of_char c - 48)) 0 s"

definition zero_pad2 :: "string \<Rightarrow> string" where
  "zero_pad2 s = (if length s < 2 then CHR ''0'' # s else s)"

text \<open>
  The ISO date the specification asks for: the century is 20 when the two-digit year is
  below 50 and 19 otherwise; month and day are padded with a zero to two digits.
\<close>

definition expected_iso_date :: "string \<Rightarrow> string" where
  "expected_iso_date s =
     (if decimal_value (dmy_year s) < 50 then ''20'' else ''19'') @ dmy_year s @ ''-'' @
     zero_pad2 (dmy_month s) @ ''-'' @ zero_pad2 (dmy_day s)"

subsection \<open>Buckets and duplicate dates\<close>

text \<open>The bucket of an object under a key, empty when the object has no such key.\<close>

definition bucket_of :: "grouped_records \<Rightarrow> string \<Rightarrow> TransformedMeasurement list" where
  "bucket_of g k = (case map_of g k of None \<Rightarrow> [] | Some rs \<Rightarrow> rs)"

text \<open>The records of a date, in input order, and the dates that have more than one record.\<close>

definition date_bucket :: "TransformedMeasurement list \<Rightarrow> string \<Rightarrow> TransformedMeasurement list" where
  "date_bucket data d = filter (\<lambda>r. date r = d) data"

definition dates_with_duplicates :: "TransformedMeasurement list \<Rightarrow> string list" where
  "dates_with_duplicates data =
     filter (\<lambda>d. 1 < length (date_bucket data d)) (remdups (map date data))"

subsection \<open>Daily averages\<close>

text \<open>The arithmetic mean, exactly.\<close>

definition mean :: "real list \<Rightarrow> real" where
  "mean xs = sum_list xs / real (length xs)"

text \<open>Rounding to the nearest integer, a tie away from zero; and the same at one decimal.\<close>

definition round_half_away_from_zero :: "real \<Rightarrow> real" where
  "round_half_away_from_zero x = sgn x * of_int \<lfloor>\<bar>x\<bar> + 1 / 2\<rfloor>"

definition round_half_away_1dp :: "real \<Rightarrow> real" where
  "round_half_away_1dp x = round_half_away_from_zero (x * 10) / 10"

definition is_integer :: "real \<Rightarrow> bool" where
  "is_integer y = (y = of_int \<lfloor>y\<rfloor>)"

text \<open>
  \<open>y\<close> is \<open>x\<close> rounded to the nearest integer, or to the nearest tenth, a tie towards
  \<open>+\<infinity>\<close>.
\<close>

definition nearest_integer_ties_up :: "real \<Rightarrow> real \<Rightarrow> bool" where
  "nearest_integer_ties_up x y = (is_integer y \<and> x - 1 / 2 < y \<and> y \<le> x + 1 / 2)"

definition nearest_tenth_ties_up :: "real \<Rightarrow> real \<Rightarrow> bool" where
  "nearest_tenth_ties_up x y = (is_integer (y * 10) \<and> x - 1 / 20 < y \<and> y \<le> x + 1 / 20)"

text \<open>A real number that is a binary64 value.\<close>

definition is_double :: "real \<Rightarrow> bool" where
  "is_double x = (binary64 x = x)"

text \<open>
  The mean as binary64 arithmetic computes it: the values are added from the left, starting
  from zero, and the sum is divided by their number, each result rounded.
\<close>

definition binary64_sum :: "real list \<Rightarrow> real" where
  "binary64_sum xs = foldl (\<lambda>s x. binary64 (s + x)) 0 xs"

definition binary64_mean :: "real list \<Rightarrow> real" where
  "binary64_mean xs = binary64 (binary64_sum xs / real (length xs))"

text \<open>
  The computation of the mean and of its tenfold is exact: every partial sum, the mean and
  ten times the mean are binary64 values.
\<close>

definition exact_in_binary64 :: "real list \<Rightarrow> bool" where
  "exact_in_binary64 xs =
     (list_all (\<lambda>k. is_double (sum_list (take k xs))) [1..<Suc (length xs)] \<and>
      is_double (mean xs) \<and> is_double (mean xs * 10))"

text \<open>
  \<open>v\<close> is \<open>x\<close> rounded to one decimal in binary64: ten times \<open>x\<close>, rounded to binary64, is
  rounded to the nearest integer \<open>n\<close>, a tie towards \<open>+\<infinity>\<close>, and \<open>v\<close> is the binary64 value
  of the decimal numeral \<open>n / 10\<close>.
\<close>

definition rounded_to_tenth :: "real \<Rightarrow> real \<Rightarrow> bool" where
  "rounded_to_tenth x v =
     (\<exists>n. nearest_integer_ties_up (binary64 (x * 10)) n \<and> v = binary64 (n / 10))"

definition decimal_fields :: "(TransformedMeasurement \<Rightarrow> real) list" where
  "decimal_fields =
     [weight, bmi, body_fat_percentage, skeletal_muscle_percentage, fat_free_body_weight,
      subcutaneous_fat_percentage, visceral_fat, body_water_percentage, muscle_mass, bone_mass,
      protein_percentage]"

definition integer_fields :: "(TransformedMeasurement \<Rightarrow> real) list" where
  "integer_fields = [basal_metabolic_rate, metabolic_age, body_type]"

text \<open>
  The record \<open>m\<close> is the daily average of the entry \<open>(date, records)\<close>: it has the date of
  the entry, the time of its first record and the import tag. Each decimal field is the
  binary64 mean of the field rounded to one decimal in binary64, a tie towards \<open>+\<infinity>\<close>;
  for a mean that is not negative this is rounding half away from zero; and when the
  computation of the mean is exact, the field is the binary64 value of the tenth nearest to
  the arithmetic mean. Each integer field is the binary64 mean rounded to the nearest
  integer.
\<close>

definition daily_average :: "string \<times> TransformedMeasurement list \<Rightarrow> TransformedMeasurement \<Rightarrow> bool" where
  "daily_average entry m =
     (date m = fst entry \<and> time m = time (hd (snd entry)) \<and> source m = renpho_import \<and>
      list_all (\<lambda>f. rounded_to_tenth (binary64_mean (map f (snd entry))) (f m) \<and>
                     (0 \<le> binary64_mean (map f (snd entry)) \<longrightarrow>
                        f m = binary64 (round_half_away_from_zero
                                (binary64 (binary64_mean (map f (snd entry)) * 10)) / 10)) \<and>
                     (exact_in_binary64 (map f (snd entry)) \<longrightarrow>
                        (\<exists>t. nearest_tenth_ties_up (mean (map f (snd entry))) t \<and>
                             f m = binary64 t))) decimal_fields \<and>
      list_all (\<lambda>f. nearest_integer_ties_up (binary64_mean (map f (snd entry))) (f m))
        integer_fields)"

text \<open>
  A record whose numeric fields are at the precision the averaging rounds to: a decimal
  field is the binary64 value of a decimal numeral with one decimal place, the tenth
  nearest to it, and an integer field is an integer. The magnitudes are those at which
  binary64 has tenths and all the integers: beyond \<open>2\<^sup>4\<^sup>9\<close> the binary64 values are an
  eighth or more apart, beyond \<open>2\<^sup>5\<^sup>3\<close> two or more.
\<close>

definition tenth_precision :: "real \<Rightarrow> bool" where
  "tenth_precision x = (\<bar>x\<bar> \<le> 10 ^ 14 \<and> x = binary64 (of_int \<lfloor>x * 10 + 1 / 2\<rfloor> / 10))"

definition integer_precision :: "real \<Rightarrow> bool" where
  "integer_precision x = (is_integer x \<and> \<bar>x\<bar> \<le> 2 ^ 53)"

definition at_rounding_precision :: "TransformedMeasurement \<Rightarrow> bool" where
  "at_rounding_precision r =
     (list_all (\<lambda>f. tenth_precision (f r)) decimal_fields \<and>
      list_all (\<lambda>f. integer_precision (f r)) integer_fields)"

subsection \<open>Previews\<close>

text \<open>
  The time of a record whose date parses. The record \<open>b\<close> is dated no later than \<open>a\<close>:
  both dates parse, and the time of \<open>b\<close> is not after the time of \<open>a\<close>; a date that does not
  parse has no place in the order. A list with the latest dates first. The order of two
  date strings, character by character, which for dates \<open>YYYY-MM-DD\<close> is the order of the
  calendar.
\<close>

definition date_time :: "js_runtime \<Rightarrow> TransformedMeasurement \<Rightarrow> int" where
  "date_time rt m = (case Date_parse rt (date m) of None \<Rightarrow> 0 | Some t \<Rightarrow> t)"

definition no_later :: "js_runtime \<Rightarrow> TransformedMeasurement \<Rightarrow> TransformedMeasurement \<Rightarrow> bool" where
  "no_later rt b a =
     (Date_parse rt (date a) \<noteq> None \<and> Date_parse rt (date b) \<noteq> None \<and>
      date_time rt b \<le> date_time rt a)"

definition latest_first :: "js_runtime \<Rightarrow> TransformedMeasurement list \<Rightarrow> bool" where
  "latest_first rt ms = sorted_wrt (\<lambda>a b. no_later rt b a) ms"

fun string_less :: "string \<Rightarrow> string \<Rightarrow> bool" where
  "string_less [] [] = False"
| "string_less [] (y # ys) = True"
| "string_less (x # xs) [] = False"
| "string_less (x # xs) (y # ys) =
     ((of_char x :: nat) < of_char y \<or> (x = y \<and> string_less xs ys))"

subsection \<open>Validation outcomes\<close>

text \<open>
  The fields with a hard range, the ranges, and what an otherwise valid record is; the
  advisory bands; the implied height of the consistency check; and the aggregate warning
  about it, recognised by its form (digits, then the fixed text).
\<close>

definition hard_fields :: "TransformedMeasurement \<Rightarrow> real \<times> real \<times> real \<times> string" where
  "hard_fields m = (weight m, bmi m, body_fat_percentage m, date m)"

definition in_hard_ranges :: "TransformedMeasurement \<Rightarrow> bool" where
  "in_hard_ranges m =
     (30 \<le> weight m \<and> weight m \<le> 300 \<and> 10 \<le> bmi m \<and> bmi m \<le> 60 \<and>
      3 \<le> body_fat_percentage m \<and> body_fat_percentage m \<le> 70)"

definition passes_hard_checks :: "js_runtime \<Rightarrow> TransformedMeasurement \<Rightarrow> bool" where
  "passes_hard_checks rt m = (in_hard_ranges m \<and> isValidDate rt (date m))"

text \<open>The error lines of a row, from its number and its four hard fields.\<close>

definition row_errors :: "js_runtime \<Rightarrow> nat \<Rightarrow> real \<times> real \<times> real \<times> string \<Rightarrow> string list" where
  "row_errors rt n h =
     (case h of (w, b, f, d) \<Rightarrow>
        map (\<lambda>(path, msg). ''Row '' @ nat_to_string n @ '': '' @ js_join ''.'' path @ '': '' @ msg)
          (weightValidationSchema w b f)
        @ (if isValidDate rt d then []
           else [''Row '' @ nat_to_string n @ '': '' @ ''Invalid date format: '' @ d]))"

definition date_range_errors :: "js_runtime \<Rightarrow> string list \<Rightarrow> string list" where
  "date_range_errors rt ds =
     (if List.map_filter (Date_parse rt) ds = [] then [''No valid dates found in the data''] else [])"

definition all_errors :: "js_runtime \<Rightarrow> (real \<times> real \<times> real \<times> string) list \<Rightarrow> string list" where
  "all_errors rt hs =
     concat (map (\<lambda>(n, h). row_errors rt n h) (List.enumerate 1 hs))
     @ date_range_errors rt (map (\<lambda>h. snd (snd (snd h))) hs)"

definition out_of_advisory_band :: "TransformedMeasurement \<Rightarrow> bool" where
  "out_of_advisory_band m =
     (skeletal_muscle_percentage m < 0 \<or> 100 < skeletal_muscle_percentage m \<or>
      body_water_percentage m < 30 \<or> 80 < body_water_percentage m \<or>
      visceral_fat m < 0 \<or> 30 < visceral_fat m \<or>
      basal_metabolic_rate m < 800 \<or> 4000 < basal_metabolic_rate m \<or>
      metabolic_age m < 10 \<or> 120 < metabolic_age m)"

definition row_prefix :: "nat \<Rightarrow> string" where
  "row_prefix n = ''Row '' @ nat_to_string n @ '': ''"




definition duplicate_warnings :: "DuplicateDetection list \<Rightarrow> string list" where
  "duplicate_warnings dups =
     (if length dups > 0
      then (''Found '' @ nat_to_string (length dups) @ '' dates with multiple measurements'')
           # map (\<lambda>d. nat_to_string (dup_count d) @ '' measurements found for '' @ dup_date d) dups
      else [])"

subsection \<open>Sample inputs\<close>

definition sample_row :: "string \<Rightarrow> RenphoRawData" where
  "sample_row fecha =
     \<lparr> Fecha = fecha, Hora = '' 7:57:06 a.m.'', Peso_kg = 70, IMC = 22.9, Grasa_corporal = 20.5,
       Musculo_esqueletico = 45, Peso_corporal_sin_grasa = 55.7, Grasa_subcutanea = 17.5,
       Grasa_visceral = 7, Agua_corporal = 57.4, Masa_muscular = 52.9, Masa_osea = 2.8,
       Proteina = 18.1, Tasa_Metabolica_Basal = 1573, Edad_metabolica = 30, Tipo_de_cuerpo = 5 \<rparr>"

definition sample_measurement :: "string \<Rightarrow> real \<Rightarrow> TransformedMeasurement" where
  "sample_measurement d w =
     \<lparr> date = d, time = ''7:57:06 a.m.'', weight = w, bmi = 22.9, body_fat_percentage = 20.5,
       skeletal_muscle_percentage = 45, fat_free_body_weight = 55.7,
       subcutaneous_fat_percentage = 17.5, visceral_fat = 7, body_water_percentage = 57.4,
       muscle_mass = 52.9, bone_mass = 2.8, protein_percentage = 18.1,
       basal_metabolic_rate = 1573, metabolic_age = 30, body_type = 5, source = renpho_import \<rparr>"

definition two_same_day :: "TransformedMeasurement list" where
  "two_same_day = [sample_measurement ''2024-01-01'' 70, sample_measurement ''2024-01-01'' 72]"

definition three_records :: "TransformedMeasurement list" where
  "three_records =
     [sample_measurement ''2024-01-01'' 70, sample_measurement ''2024-01-02'' 70.4,
      sample_measurement ''2024-01-01'' 72]"

text \<open>
  The same record as JavaScript holds it, each decimal numeral read as the binary64 value
  nearest to it; records for the averaging.
\<close>

definition double_measurement :: "string \<Rightarrow> real \<Rightarrow> TransformedMeasurement" where
  "double_measurement d w =
     \<lparr> date = d, time = ''7:57:06 a.m.'', weight = binary64 w, bmi = binary64 22.9,
       body_fat_percentage = binary64 20.5, skeletal_muscle_percentage = binary64 45,
       fat_free_body_weight = binary64 55.7, subcutaneous_fat_percentage = binary64 17.5,
       visceral_fat = binary64 7, body_water_percentage = binary64 57.4,
       muscle_mass = binary64 52.9, bone_mass = binary64 2.8, protein_percentage = binary64 18.1,
       basal_metabolic_rate = binary64 1573, metabolic_age = binary64 30, body_type = binary64 5,
       source = renpho_import \<rparr>"

definition same_day_70_72 :: "TransformedMeasurement list" where
  "same_day_70_72 = [double_measurement ''2024-01-01'' 70, double_measurement ''2024-01-01'' 72]"

definition same_day_close :: "TransformedMeasurement list" where
  "same_day_close =
     [double_measurement ''2024-01-01'' 32.3, double_measurement ''2024-01-01'' 32.4]"

definition neg_tie_record :: TransformedMeasurement where
  "neg_tie_record = (double_measurement ''2024-01-01'' 70)\<lparr> skeletal_muscle_percentage := - 1 / 4 \<rparr>"

definition two_days_double :: "TransformedMeasurement list" where
  "two_days_double =
     [double_measurement ''2024-01-01'' 70, double_measurement ''2024-01-02'' 70.4]"

definition valid_outcome :: ValidationResult where
  "valid_outcome = \<lparr> errors = [], warnings = [], isValid = True \<rparr>"

definition blocked_result :: ParseResult where
  "blocked_result =
     \<lparr> originalData = [],
       transformedData = [sample_measurement ''2024-01-01'' 25],
       grouped = [(''2024-01-01'', [sample_measurement ''2024-01-01'' 25])],
       duplicates = [],
       validation = \<lparr> errors = [''Row 1: weight: Minimum weight is 30kg''], warnings = [],
                      isValid = False \<rparr> \<rparr>"

definition empty_bucket_result :: ParseResult where
  "empty_bucket_result =
     \<lparr> originalData = [], transformedData = [], grouped = [(''2024-01-01'', [])],
       duplicates = [], validation = valid_outcome \<rparr>"

text \<open>
  Two rows of a file, the second with a date that no calendar has, which is transformed to
  the date \<open>2024-13-15\<close>.
\<close>

definition no_such_date_rows :: "RenphoRawData list" where
  "no_such_date_rows = [sample_row ''01/01/24'', sample_row ''15/13/24'']"

definition two_days_result :: ParseResult where
  "two_days_result =
     \<lparr> originalData = [], transformedData = two_days_double,
       grouped = [(''2024-01-01'', [double_measurement ''2024-01-01'' 70]),
                  (''2024-01-02'', [double_measurement ''2024-01-02'' 70.4])],
       duplicates = [], validation = valid_outcome \<rparr>"

definition sample_runtime :: js_runtime where
  "sample_runtime =
     \<lparr> Date_parse = (\<lambda>s. if s = ''2024-01-01'' then Some 1704067200000
                         else if s = ''2024-01-02'' then Some 1704153600000 else None),
       Date_now = 1793577600000,
       ten_years_ago = 1478044800000,
       toLocaleDateString = (\<lambda>t. nat_to_string (nat t)),
       Number_toString = (\<lambda>x. nat_to_string (nat \<lfloor>x\<rfloor>)),
       toFixed = (\<lambda>x n. nat_to_string (nat \<lfloor>x\<rfloor>)) \<rparr>"

definition low_weight_record :: TransformedMeasurement where
  "low_weight_record =
     (sample_measurement ''2024-01-01'' 25)\<lparr> skeletal_muscle_percentage := 150 \<rparr>"


section \<open>Properties\<close>

subsection \<open>Dates of the transformed records\<close>

lemma js_split_not_Nil: "js_split c s \<noteq> []"
  by (induction s) (auto split: list.splits)

lemma js_split_no_sep: "c \<notin> set s \<Longrightarrow> js_split c s = [s]"
  by (induction s) auto

lemma js_split_append: "c \<notin> set a \<Longrightarrow> js_split c (a @ c # b) = a # js_split c b"
  by (induction a) (auto split: list.splits simp: js_split_not_Nil)

lemma digit_not_slash: "is_digit c \<Longrightarrow> c \<noteq> CHR ''/''"
  by (auto simp: is_digit_def)

lemma digits_no_slash: "list_all is_digit s \<Longrightarrow> CHR ''/'' \<notin> set s"
  by (auto simp: list_all_iff dest: digit_not_slash)

lemma js_split_dmy:
  assumes "dmy_form s"
  shows "js_split CHR ''/'' s = [dmy_day s, dmy_month s, dmy_year s]"
proof -
  from assms have eq: "s = dmy_day s @ CHR ''/'' # (dmy_month s @ CHR ''/'' # dmy_year s)"
    and d: "list_all is_digit (dmy_day s)" and m: "list_all is_digit (dmy_month s)"
    and y: "list_all is_digit (dmy_year s)"
    by (simp_all add: dmy_form_def one_or_two_digits_def)
  have "js_split CHR ''/'' (dmy_day s @ CHR ''/'' # (dmy_month s @ CHR ''/'' # dmy_year s))
        = [dmy_day s, dmy_month s, dmy_year s]"
    by (simp add: js_split_append js_split_no_sep digits_no_slash d m y)
  with eq show ?thesis by simp
qed

lemma digit_value_10: "is_digit c \<Longrightarrow> digit_value 10 c = Some (of_char c - 48)"
  unfolding is_digit_def digit_value_def by auto

lemma digit_not_space: "is_digit c \<Longrightarrow> \<not> is_space c"
  by (auto simp: is_digit_def is_space_def)

lemma digit_not_sign:
  "is_digit c \<Longrightarrow> c \<noteq> CHR ''-'' \<and> c \<noteq> CHR ''+'' \<and> c \<noteq> CHR ''x'' \<and> c \<noteq> CHR ''X''"
  by (auto simp: is_digit_def)

lemma parseInt_two_digits:
  assumes "length y = 2" "list_all is_digit y"
  shows "parseInt y = Some (int (decimal_value y))"
proof -
  from assms obtain a b where y: "y = [a, b]" and a: "is_digit a" and b: "is_digit b"
    by (cases y; cases "tl y") auto
  show ?thesis
    using digit_not_space [OF a] digit_not_sign [OF a] digit_not_sign [OF b]
    by (simp add: y parseInt_def decimal_value_def digit_value_10 a b)
qed

lemma padStart_zero_pad2: "s \<noteq> [] \<Longrightarrow> padStart 2 CHR ''0'' s = zero_pad2 s"
  by (cases s; cases "tl s") (auto simp: padStart_def zero_pad2_def)

lemma transformRow_dmy:
  assumes "dmy_form (Fecha row)"
  shows "\<exists>t. transformRow row index = Inr t \<and> date t = expected_iso_date (Fecha row)"
proof -
  from assms have y: "length (dmy_year (Fecha row)) = 2" "list_all is_digit (dmy_year (Fecha row))"
    and ne: "dmy_day (Fecha row) \<noteq> []" "dmy_month (Fecha row) \<noteq> []"
    by (simp_all add: dmy_form_def one_or_two_digits_def)
  show ?thesis
    by (simp add: transformRow_def js_split_dmy [OF assms] parseInt_two_digits [OF y]
        padStart_zero_pad2 ne expected_iso_date_def Let_def)
qed

lemma iso_shape_expected:
  assumes "dmy_form s"
  shows "iso_shape (expected_iso_date s)"
proof -
  from assms obtain a b where y: "dmy_year s = [a, b]" and ab: "is_digit a" "is_digit b"
    by (cases "dmy_year s"; cases "tl (dmy_year s)") (auto simp: dmy_form_def)
  have z: "is_digit CHR ''0''" "is_digit CHR ''1''" "is_digit CHR ''2''" "is_digit CHR ''9''"
    by (simp_all add: is_digit_def)
  have pad: "\<exists>p q. zero_pad2 u = [p, q] \<and> is_digit p \<and> is_digit q" if "one_or_two_digits u" for u
    using that z
    by (cases u; cases "tl u"; cases "tl (tl u)") (auto simp: one_or_two_digits_def zero_pad2_def)
  from assms pad obtain p q where m: "zero_pad2 (dmy_month s) = [p, q]" "is_digit p" "is_digit q"
    unfolding dmy_form_def by blast
  from assms pad obtain p' q' where d: "zero_pad2 (dmy_day s) = [p', q']" "is_digit p'" "is_digit q'"
    unfolding dmy_form_def by blast
  show ?thesis
    by (simp add: expected_iso_date_def y m d iso_shape_def ab z)
qed

lemma transform_from_dmy:
  "\<forall>row \<in> set rows. dmy_form (Fecha row) \<Longrightarrow>
   \<exists>ts. transform_from index rows = Inr ts \<and>
        map date ts = map (\<lambda>row. expected_iso_date (Fecha row)) rows"
proof (induction rows arbitrary: index)
  case Nil
  then show ?case by simp
next
  case (Cons row rows)
  from Cons.prems obtain t where
    t: "transformRow row index = Inr t" "date t = expected_iso_date (Fecha row)"
    using transformRow_dmy [of row index] by auto
  from Cons.IH [of "Suc index"] Cons.prems obtain ts where
    ts: "transform_from (Suc index) rows = Inr ts"
        "map date ts = map (\<lambda>row. expected_iso_date (Fecha row)) rows"
    by auto
  show ?case by (simp add: t ts)
qed

lemma transform_from_nth:
  "transform_from index rows = Inr ts \<Longrightarrow>
   length ts = length rows \<and> (\<forall>i < length rows. transformRow (rows ! i) (index + i) = Inr (ts ! i))"
proof (induction rows arbitrary: index ts)
  case Nil
  then show ?case by simp
next
  case (Cons row rows)
  from Cons.prems obtain t ts' where t: "transformRow row index = Inr t"
    and ts': "transform_from (Suc index) rows = Inr ts'" and ts: "ts = t # ts'"
    by (auto split: sum.splits)
  from Cons.IH [OF ts'] have len: "length ts' = length rows"
    and nth: "\<forall>i < length rows. transformRow (rows ! i) (Suc index + i) = Inr (ts' ! i)"
    by simp_all
  show ?case
  proof (intro conjI allI impI)
    show "length ts = length (row # rows)" by (simp add: ts len)
    fix i assume "i < length (row # rows)"
    then show "transformRow ((row # rows) ! i) (index + i) = Inr (ts ! i)"
      using t nth by (cases i) (simp_all add: ts)
  qed
qed

text \<open>
  Claim C3. A row whose \<open>Fecha\<close> is a day, a month and a two-digit year separated by
  slashes is transformed to a record whose date is the ISO date \<open>YYYY-MM-DD\<close> of the row,
  with day and month padded to two digits and the century 20 for a year below 50 and 19
  from 50 on; so \<open>15/03/24\<close> becomes \<open>2024-03-15\<close> and \<open>15/03/75\<close> becomes
  \<open>1975-03-15\<close>. This holds for the row by itself, for each such row of an input that
  \<open>transformRenphoData\<close> accepts, and \<open>transformRenphoData\<close> accepts every input whose
  rows are all of this form.
\<close>

theorem transformRenphoData_iso_dates:
  "(\<forall>row index. dmy_form (Fecha row) \<longrightarrow>
      (\<exists>t. transformRow row index = Inr t \<and> date t = expected_iso_date (Fecha row) \<and>
           iso_shape (date t))) \<and>
   (\<forall>rows ts. transformRenphoData rows = Inr ts \<longrightarrow>
      length ts = length rows \<and>
      (\<forall>i < length rows. dmy_form (Fecha (rows ! i)) \<longrightarrow>
         date (ts ! i) = expected_iso_date (Fecha (rows ! i)) \<and> iso_shape (date (ts ! i)))) \<and>
   (\<forall>rows. (\<forall>row \<in> set rows. dmy_form (Fecha row)) \<longrightarrow>
      (\<exists>ts. transformRenphoData rows = Inr ts \<and>
            map date ts = map (\<lambda>row. expected_iso_date (Fecha row)) rows)) \<and>
   expected_iso_date ''15/03/24'' = ''2024-03-15'' \<and>
   expected_iso_date ''15/03/75'' = ''1975-03-15''"
proof (intro conjI allI impI)
  fix row :: RenphoRawData and index
  assume f: "dmy_form (Fecha row)"
  from transformRow_dmy [OF f, of index] iso_shape_expected [OF f]
  show "\<exists>t. transformRow row index = Inr t \<and> date t = expected_iso_date (Fecha row) \<and>
           iso_shape (date t)"
    by auto
next
  fix rows :: "RenphoRawData list" and ts
  assume r: "transformRenphoData rows = Inr ts"
  from transform_from_nth [OF r [unfolded transformRenphoData_def]]
  show "length ts = length rows" by simp
next
  fix rows :: "RenphoRawData list" and ts i
  assume r: "transformRenphoData rows = Inr ts" and i: "i < length rows"
    and f: "dmy_form (Fecha (rows ! i))"
  from transform_from_nth [OF r [unfolded transformRenphoData_def]] i
  have "transformRow (rows ! i) (0 + i) = Inr (ts ! i)" by blast
  with transformRow_dmy [OF f, of "0 + i"]
  have d: "date (ts ! i) = expected_iso_date (Fecha (rows ! i))" by auto
  then show "date (ts ! i) = expected_iso_date (Fecha (rows ! i))" .
  from d iso_shape_expected [OF f] show "iso_shape (date (ts ! i))" by simp
next
  fix rows :: "RenphoRawData list"
  assume "\<forall>row \<in> set rows. dmy_form (Fecha row)"
  from transform_from_dmy [OF this, of 0]
  show "\<exists>ts. transformRenphoData rows = Inr ts \<and>
            map date ts = map (\<lambda>row. expected_iso_date (Fecha row)) rows"
    by (simp add: transformRenphoData_def)
next
  show "expected_iso_date ''15/03/24'' = ''2024-03-15''"
    by (simp add: expected_iso_date_def dmy_year_def dmy_month_def dmy_day_def not_slash_def
        decimal_value_def zero_pad2_def)
  show "expected_iso_date ''15/03/75'' = ''1975-03-15''"
    by (simp add: expected_iso_date_def dmy_year_def dmy_month_def dmy_day_def not_slash_def
        decimal_value_def zero_pad2_def)
qed

theorem transformRenphoData_iso_dates_witness:
  "dmy_form ''15/03/24'' \<and> dmy_form ''5/3/75'' \<and>
   (\<exists>t. transformRow (sample_row ''15/03/24'') 0 = Inr t \<and> date t = ''2024-03-15'' \<and>
        iso_shape (date t)) \<and>
   (\<exists>ts. transformRenphoData [sample_row ''15/03/24'', sample_row ''5/3/75''] = Inr ts \<and>
         map date ts = [''2024-03-15'', ''1975-03-05''])"
proof -
  have f1: "dmy_form ''15/03/24''"
    by (simp add: dmy_form_def dmy_year_def dmy_month_def dmy_day_def not_slash_def
        one_or_two_digits_def is_digit_def)
  have f2: "dmy_form ''5/3/75''"
    by (simp add: dmy_form_def dmy_year_def dmy_month_def dmy_day_def not_slash_def
        one_or_two_digits_def is_digit_def)
  have e2: "expected_iso_date ''5/3/75'' = ''1975-03-05''"
    by (simp add: expected_iso_date_def dmy_year_def dmy_month_def dmy_day_def not_slash_def
        decimal_value_def zero_pad2_def)
  note T = transformRenphoData_iso_dates
  from T have e1: "expected_iso_date ''15/03/24'' = ''2024-03-15''" by (elim conjE)
  have f1': "dmy_form (Fecha (sample_row ''15/03/24''))" by (simp add: sample_row_def f1)
  from T [THEN conjunct1, THEN spec, THEN spec, THEN mp, OF f1', of 0]
  have row: "\<exists>t. transformRow (sample_row ''15/03/24'') 0 = Inr t \<and> date t = ''2024-03-15'' \<and>
        iso_shape (date t)"
    by (simp add: sample_row_def e1)
  have h: "\<forall>row \<in> set [sample_row ''15/03/24'', sample_row ''5/3/75'']. dmy_form (Fecha row)"
    by (simp add: sample_row_def f1 f2)
  from T [THEN conjunct2, THEN conjunct2, THEN conjunct1, THEN spec, THEN mp, OF h] obtain ts where
    ts: "transformRenphoData [sample_row ''15/03/24'', sample_row ''5/3/75''] = Inr ts"
        "map date ts = map (\<lambda>row. expected_iso_date (Fecha row))
                         [sample_row ''15/03/24'', sample_row ''5/3/75'']"
    by (elim exE conjE) (rule that, assumption+)
  from ts(2) have "map date ts = [''2024-03-15'', ''1975-03-05'']"
    by (simp add: sample_row_def e1 e2)
  with ts(1) f1 f2 row show ?thesis by simp
qed

subsection \<open>Grouping by date\<close>

lemma set_object_entries [simp]: "set (object_entries obj) = set obj"
  by (auto simp: object_entries_def)

lemma length_filter_split:
  "length (filter P (filter Q xs)) + length (filter P (filter (\<lambda>x. \<not> Q x) xs)) = length (filter P xs)"
  by (induction xs) auto

lemma length_filter_object_entries:
  "length (filter P (object_entries obj)) = length (filter P obj)"
proof -
  have c: "(\<lambda>(k, v). array_index k = None) = (\<lambda>x. \<not> (case x of (k, v) \<Rightarrow> array_index k \<noteq> None))"
    by (auto simp: fun_eq_iff)
  show ?thesis
    unfolding object_entries_def c filter_append length_append filter_sort length_sort
    by (rule length_filter_split)
qed

lemma length_object_entries [simp]: "length (object_entries obj) = length obj"
  using length_filter_object_entries [of "\<lambda>x. True" obj] by simp

lemma distinct_object_entries: "distinct obj \<Longrightarrow> distinct (object_entries obj)"
  by (auto simp: object_entries_def)

lemma distinct_keys_object_entries:
  "distinct (map fst obj) \<Longrightarrow> distinct (map fst (object_entries obj))"
  by (simp add: distinct_map distinct_object_entries)

lemma group_push_map_of:
  "group_push g r = Inr g' \<Longrightarrow> map_of g' = (map_of g)(date r \<mapsto> bucket_of g (date r) @ [r])"
  by (auto simp: group_push_def bucket_of_def update_conv' map_add_def fun_eq_iff
      split: option.splits if_splits)

lemma group_push_distinct:
  "distinct (map fst g) \<Longrightarrow> group_push g r = Inr g' \<Longrightarrow> distinct (map fst g')"
  by (auto simp: group_push_def distinct_update map_of_eq_None_iff split: option.splits if_splits)

lemma group_push_total:
  "date r \<notin> set object_prototype_keys \<Longrightarrow> \<exists>g'. group_push g r = Inr g'"
  by (simp add: group_push_def split: option.splits)

lemma group_loop_total:
  "\<forall>r \<in> set data. date r \<notin> set object_prototype_keys \<Longrightarrow> \<exists>g'. group_loop g data = Inr g'"
proof (induction data arbitrary: g)
  case Nil
  then show ?case by simp
next
  case (Cons r data)
  then obtain g1 where "group_push g r = Inr g1"
    using group_push_total [of r g] by auto
  with Cons show ?case by simp
qed

lemma group_loop_buckets:
  "group_loop g data = Inr g' \<Longrightarrow>
   dom (map_of g') = dom (map_of g) \<union> date ` set data \<and>
   (\<forall>k. bucket_of g' k = bucket_of g k @ filter (\<lambda>r. date r = k) data)"
proof (induction data arbitrary: g)
  case Nil
  then show ?case by simp
next
  case (Cons r data)
  from Cons.prems obtain g1 where p: "group_push g r = Inr g1" and l: "group_loop g1 data = Inr g'"
    by (auto split: sum.splits)
  note m = group_push_map_of [OF p]
  have b1: "bucket_of g1 k = bucket_of g k @ filter (\<lambda>r. date r = k) [r]" for k
    by (simp add: bucket_of_def m)
  have d1: "dom (map_of g1) = insert (date r) (dom (map_of g))"
    by (simp add: m)
  from Cons.IH [OF l] show ?case
    by (simp add: b1 d1)
qed

lemma group_loop_distinct:
  "distinct (map fst g) \<Longrightarrow> group_loop g data = Inr g' \<Longrightarrow> distinct (map fst g')"
  by (induction data arbitrary: g) (auto split: sum.splits dest: group_push_distinct)

lemma group_loop_fails_iff:
  "(\<exists>e. group_loop g data = Inl e) \<longleftrightarrow>
   (\<exists>r \<in> set data. date r \<in> set object_prototype_keys \<and> date r \<notin> dom (map_of g))"
proof (induction data arbitrary: g)
  case Nil
  then show ?case by simp
next
  case (Cons r data)
  show ?case
  proof (cases "group_push g r")
    case (Inl e)
    then show ?thesis
      by (auto simp: group_push_def split: option.splits if_splits)
  next
    case (Inr g1)
    then have ok: "date r \<notin> set object_prototype_keys \<or> date r \<in> dom (map_of g)"
      by (auto simp: group_push_def split: option.splits if_splits)
    have d1: "dom (map_of g1) = insert (date r) (dom (map_of g))"
      by (simp add: group_push_map_of [OF Inr])
    show ?thesis
      using Cons.IH [of g1] ok by (auto simp: Inr d1)
  qed
qed

lemma group_loop_empty:
  assumes "group_loop [] data = Inr g"
  shows "distinct (map fst g)" and "fst ` set g = date ` set data"
    and "(d, rs) \<in> set g \<Longrightarrow> rs = date_bucket data d \<and> rs \<noteq> []"
proof -
  show dist: "distinct (map fst g)"
    using group_loop_distinct [OF _ assms] by simp
  from group_loop_buckets [OF assms]
  have dom: "dom (map_of g) = date ` set data"
    and bk: "\<And>k. bucket_of g k = date_bucket data k"
    by (simp_all add: bucket_of_def date_bucket_def)
  from dom show keys: "fst ` set g = date ` set data"
    by (simp add: dom_map_of_conv_image_fst)
  assume "(d, rs) \<in> set g"
  with dist have m: "map_of g d = Some rs" by simp
  then have "rs = date_bucket data d" using bk [of d] by (simp add: bucket_of_def)
  moreover from m dom have "d \<in> date ` set data" by auto
  then have "date_bucket data d \<noteq> []" by (auto simp: date_bucket_def filter_empty_conv)
  ultimately show "rs = date_bucket data d \<and> rs \<noteq> []" by simp
qed

lemma set_find_duplicates:
  "set (find_duplicates g) =
   {\<lparr>dup_date = d, dup_count = length rs\<rparr> | d rs. (d, rs) \<in> set g \<and> 1 < length rs}"
  by (auto simp: find_duplicates_def image_iff)

lemma dup_dates_find_duplicates:
  "map dup_date (find_duplicates g) =
   map fst (filter (\<lambda>(d, records). length records > 1) (object_entries g))"
  by (simp add: find_duplicates_def case_prod_unfold comp_def)

lemma distinct_find_duplicates:
  "distinct (map fst g) \<Longrightarrow> distinct (map dup_date (find_duplicates g))"
  unfolding dup_dates_find_duplicates
  by (rule distinct_map_filter) (rule distinct_keys_object_entries)

text \<open>
  Claim C4. For every list of canonical measurements, \<open>groupByDate\<close> returns and
  partitions the input exactly: the keys are distinct and are the dates of the input; every
  bucket is non-empty and is the list of the records of its date, in input order; every
  record lies in the bucket of its own date and in no other; and the duplicates are, once
  each, the dates whose bucket has more than one record, each with the size of that bucket.
  What the proof needs of a canonical measurement is that its date is not the name of a
  member of \<^verbatim>\<open>Object.prototype\<close>; every date of the form \<open>YYYY-MM-DD\<close> and every date
  that \<open>transformRenphoData\<close> produces is such a date.
\<close>

theorem groupByDate_partition:
  assumes "\<forall>r \<in> set data. date r \<notin> set object_prototype_keys"
  shows "\<exists>g dups. groupByDate data = Inr (g, dups) \<and>
           distinct (map fst g) \<and>
           fst ` set g = date ` set data \<and>
           (\<forall>(d, rs) \<in> set g. rs \<noteq> [] \<and> rs = date_bucket data d) \<and>
           (\<forall>r \<in> set data. (date r, date_bucket data (date r)) \<in> set g \<and>
                             (\<exists>!b. b \<in> set g \<and> r \<in> set (snd b))) \<and>
           distinct (map dup_date dups) \<and>
           set dups = {\<lparr>dup_date = d, dup_count = length rs\<rparr> | d rs. (d, rs) \<in> set g \<and> 1 < length rs}"
proof -
  from group_loop_total [OF assms] obtain g where g: "group_loop [] data = Inr g" by blast
  note facts = group_loop_empty [OF g]
  have res: "groupByDate data = Inr (g, find_duplicates g)"
    by (simp add: groupByDate_def g)
  have b: "\<forall>(d, rs) \<in> set g. rs \<noteq> [] \<and> rs = date_bucket data d"
    using facts(3) by auto
  have c: "(date r, date_bucket data (date r)) \<in> set g \<and> (\<exists>!b. b \<in> set g \<and> r \<in> set (snd b))"
    if r: "r \<in> set data" for r
  proof -
    from r facts(2) obtain rs where in_g: "(date r, rs) \<in> set g" by force
    with facts(3) have rs: "rs = date_bucket data (date r)" by blast
    have mem: "r \<in> set (date_bucket data (date r))" using r by (simp add: date_bucket_def)
    have uniq: "b = (date r, rs)" if "b \<in> set g" "r \<in> set (snd b)" for b
    proof -
      obtain d rs' where b: "b = (d, rs')" by (cases b)
      with that facts(3) [of d rs'] have "r \<in> set (date_bucket data d)" by simp
      then have "d = date r" by (simp add: date_bucket_def)
      with b that(1) in_g facts(1) show ?thesis
        by (metis eq_key_imp_eq_value)
    qed
    from in_g rs have "(date r, date_bucket data (date r)) \<in> set g" by simp
    moreover have "\<exists>!b. b \<in> set g \<and> r \<in> set (snd b)"
    proof (rule ex1I [of _ "(date r, rs)"])
      show "(date r, rs) \<in> set g \<and> r \<in> set (snd (date r, rs))"
        using in_g rs mem by simp
      show "b = (date r, rs)" if "b \<in> set g \<and> r \<in> set (snd b)" for b
        using uniq [of b] that by blast
    qed
    ultimately show ?thesis by (rule conjI)
  qed
  then have c': "\<forall>r \<in> set data. (date r, date_bucket data (date r)) \<in> set g \<and>
                             (\<exists>!b. b \<in> set g \<and> r \<in> set (snd b))"
    by blast
  show ?thesis
  proof (intro exI conjI)
    show "groupByDate data = Inr (g, find_duplicates g)" by (rule res)
    show "distinct (map fst g)" by (rule facts(1))
    show "fst ` set g = date ` set data" by (rule facts(2))
    show "\<forall>(d, rs) \<in> set g. rs \<noteq> [] \<and> rs = date_bucket data d" by (rule b)
    show "\<forall>r \<in> set data. (date r, date_bucket data (date r)) \<in> set g \<and>
                             (\<exists>!b. b \<in> set g \<and> r \<in> set (snd b))" by (rule c')
    show "distinct (map dup_date (find_duplicates g))"
      by (rule distinct_find_duplicates [OF facts(1)])
    show "set (find_duplicates g) =
          {\<lparr>dup_date = d, dup_count = length rs\<rparr> | d rs. (d, rs) \<in> set g \<and> 1 < length rs}"
      by (rule set_find_duplicates)
  qed
qed

lemma length_filter_image_sum:
  "finite D \<Longrightarrow> (\<Sum>d\<in>D. length (filter (\<lambda>r. f r = d) xs)) = length (filter (\<lambda>r. f r \<in> D) xs)"
proof (induction xs)
  case Nil
  then show ?case by simp
next
  case (Cons x xs)
  have "(\<Sum>d\<in>D. length (filter (\<lambda>r. f r = d) (x # xs))) =
        (\<Sum>d\<in>D. (if f x = d then 1 else 0) + length (filter (\<lambda>r. f r = d) xs))"
    by (rule sum.cong) auto
  also have "\<dots> = (\<Sum>d\<in>D. (if f x = d then 1 else 0)) + (\<Sum>d\<in>D. length (filter (\<lambda>r. f r = d) xs))"
    by (simp add: sum.distrib)
  also have "(\<Sum>d\<in>D. (if f x = d then 1 else 0)) = (if f x \<in> D then 1 else (0::nat))"
    using Cons.prems by (simp add: sum.delta')
  finally show ?case using Cons by simp
qed

text \<open>
  Claim C7, amended. For every list of canonical measurements (dates as for C4), the
  number of entries of the duplicates list is the number of dates that have more than one
  record, and the sum of their counts is the number of records on those dates.
\<close>

theorem groupByDate_duplicates_count:
  assumes "\<forall>r \<in> set data. date r \<notin> set object_prototype_keys"
  shows "\<exists>g dups. groupByDate data = Inr (g, dups) \<and>
           length dups = length (dates_with_duplicates data) \<and>
           sum_list (map dup_count dups) =
             length (filter (\<lambda>r. date r \<in> set (dates_with_duplicates data)) data)"
proof -
  from group_loop_total [OF assms] obtain g where g: "group_loop [] data = Inr g" by blast
  note facts = group_loop_empty [OF g]
  have res: "groupByDate data = Inr (g, find_duplicates g)"
    by (simp add: groupByDate_def g)
  define big where "big = (\<lambda>(d :: string, records :: TransformedMeasurement list). length records > 1)"
  define D where "D = set (dates_with_duplicates data)"
  have D: "D = {d \<in> date ` set data. 1 < length (date_bucket data d)}"
    by (auto simp: D_def dates_with_duplicates_def)
  have dg: "distinct g" using facts(1) by (simp add: distinct_map)
  have inj: "inj_on fst (set g)" using facts(1) by (simp add: distinct_map)
  have img: "fst ` {b \<in> set g. big b} = D"
  proof (intro set_eqI iffI)
    fix d assume "d \<in> fst ` {b \<in> set g. big b}"
    then obtain rs where "(d, rs) \<in> set g" "1 < length rs" by (auto simp: big_def)
    with facts(2) facts(3) [of d rs] show "d \<in> D" unfolding D by force
  next
    fix d assume "d \<in> D"
    then have d: "d \<in> fst ` set g" "1 < length (date_bucket data d)"
      by (simp_all add: D facts(2))
    then obtain rs where in_g: "(d, rs) \<in> set g" by force
    with facts(3) d(2) have "big (d, rs)" by (simp add: big_def)
    with in_g show "d \<in> fst ` {b \<in> set g. big b}" by force
  qed
  have inj': "inj_on fst {b \<in> set g. big b}" by (rule inj_on_subset [OF inj]) auto
  have "length (find_duplicates g) = length (filter big g)"
    by (simp add: find_duplicates_def big_def length_filter_object_entries)
  also have "\<dots> = card {b \<in> set g. big b}"
    using dg by (simp add: distinct_length_filter Collect_conj_eq Int_commute)
  also have "\<dots> = card D"
    using card_image [OF inj'] img by simp
  also have "\<dots> = length (dates_with_duplicates data)"
    unfolding D_def by (rule distinct_card) (simp add: dates_with_duplicates_def)
  finally have len: "length (find_duplicates g) = length (dates_with_duplicates data)" .
  have "sum_list (map dup_count (find_duplicates g)) =
        sum_list (map (\<lambda>b. length (snd b)) (filter big (object_entries g)))"
    by (simp add: find_duplicates_def big_def comp_def case_prod_unfold)
  also have "\<dots> = (\<Sum>b \<in> set (filter big (object_entries g)). length (snd b))"
    by (rule sum_list_distinct_conv_sum_set) (simp add: distinct_object_entries dg)
  also have "\<dots> = (\<Sum>b \<in> {b \<in> set g. big b}. length (snd b))"
    by (rule sum.cong) auto
  also have "\<dots> = (\<Sum>b \<in> {b \<in> set g. big b}. length (date_bucket data (fst b)))"
    by (rule sum.cong) (use facts(3) in auto)
  also have "\<dots> = (\<Sum>d \<in> D. length (date_bucket data d))"
    using sum.reindex [OF inj', of "\<lambda>d. length (date_bucket data d)"] img by simp
  also have "\<dots> = length (filter (\<lambda>r. date r \<in> D) data)"
    unfolding date_bucket_def by (rule length_filter_image_sum) (simp add: D_def)
  finally have sum: "sum_list (map dup_count (find_duplicates g)) =
      length (filter (\<lambda>r. date r \<in> D) data)" .
  show ?thesis
  proof (intro exI conjI)
    show "groupByDate data = Inr (g, find_duplicates g)" by (rule res)
    show "length (find_duplicates g) = length (dates_with_duplicates data)" by (rule len)
    show "sum_list (map dup_count (find_duplicates g)) =
          length (filter (\<lambda>r. date r \<in> set (dates_with_duplicates data)) data)"
      using sum by (simp add: D_def)
  qed
qed

text \<open>
  Outside the canonical dates: for a date that names a member of \<^verbatim>\<open>Object.prototype\<close> the
  lookup finds the inherited member, no bucket is created, and \<open>groupByDate\<close> throws.
\<close>

lemma groupByDate_prototype_key:
  "groupByDate [sample_measurement ''constructor'' 70] =
     Inl (TypeError ''grouped[record.date].push is not a function'')"
  by (simp add: groupByDate_def group_push_def sample_measurement_def object_prototype_keys_def)

lemma groupByDate_returns_iff:
  "(\<exists>result. groupByDate data = Inr result) \<longleftrightarrow>
   (\<forall>r \<in> set data. date r \<notin> set object_prototype_keys)"
proof -
  have "(\<exists>result. groupByDate data = Inr result) \<longleftrightarrow> \<not> (\<exists>e. group_loop [] data = Inl e)"
    by (cases "group_loop [] data") (simp_all add: groupByDate_def)
  then show ?thesis by (simp add: group_loop_fails_iff)
qed

theorem groupByDate_partition_witness:
  "''2024-01-01'' \<notin> set object_prototype_keys \<and> ''2024-01-02'' \<notin> set object_prototype_keys \<and>
   (\<exists>g dups. groupByDate three_records = Inr (g, dups) \<and> distinct (map fst g) \<and>
      fst ` set g = {''2024-01-01'', ''2024-01-02''} \<and>
      (''2024-01-01'', [sample_measurement ''2024-01-01'' 70, sample_measurement ''2024-01-01'' 72])
        \<in> set g)"
proof -
  have k: "''2024-01-01'' \<notin> set object_prototype_keys" "''2024-01-02'' \<notin> set object_prototype_keys"
    by (simp_all add: object_prototype_keys_def)
  then have "\<forall>r \<in> set three_records. date r \<notin> set object_prototype_keys"
    by (simp add: three_records_def sample_measurement_def)
  from groupByDate_partition [OF this] obtain g dups where
    res: "groupByDate three_records = Inr (g, dups)" and dist: "distinct (map fst g)"
    and keys: "fst ` set g = date ` set three_records"
    and mem: "\<forall>r \<in> set three_records.
               (date r, date_bucket three_records (date r)) \<in> set g \<and>
               (\<exists>!b. b \<in> set g \<and> r \<in> set (snd b))"
    by (elim exE conjE) (rule that, assumption+)
  from keys have keys': "fst ` set g = {''2024-01-01'', ''2024-01-02''}"
    by (simp add: three_records_def sample_measurement_def insert_commute)
  have "sample_measurement ''2024-01-01'' 70 \<in> set three_records"
    by (simp add: three_records_def)
  with mem have "(date (sample_measurement ''2024-01-01'' 70),
      date_bucket three_records (date (sample_measurement ''2024-01-01'' 70))) \<in> set g"
    by blast
  then have "(''2024-01-01'',
      [sample_measurement ''2024-01-01'' 70, sample_measurement ''2024-01-01'' 72]) \<in> set g"
    by (simp add: three_records_def sample_measurement_def date_bucket_def)
  with k res dist keys' show ?thesis by simp
qed

text \<open>
  As stated, C7 fails as soon as a date has two records: the counts then sum to 2 while one
  date has more than one record.
\<close>

theorem groupByDate_duplicates_count_counterexample:
  "groupByDate two_same_day =
     Inr ([(''2024-01-01'', two_same_day)], [\<lparr>dup_date = ''2024-01-01'', dup_count = 2\<rparr>]) \<and>
   sum_list (map dup_count [\<lparr>dup_date = ''2024-01-01'', dup_count = 2\<rparr>]) = 2 \<and>
   length (dates_with_duplicates two_same_day) = 1"
  by (simp add: groupByDate_def group_push_def two_same_day_def sample_measurement_def
      object_prototype_keys_def find_duplicates_def object_entries_def array_index_def
      is_digit_def dates_with_duplicates_def date_bucket_def)

theorem groupByDate_duplicates_count_witness:
  "''2024-01-01'' \<notin> set object_prototype_keys \<and> ''2024-01-02'' \<notin> set object_prototype_keys \<and>
   (\<exists>g dups. groupByDate three_records = Inr (g, dups) \<and> length dups = 1 \<and>
      sum_list (map dup_count dups) = 2)"
proof -
  have k: "''2024-01-01'' \<notin> set object_prototype_keys" "''2024-01-02'' \<notin> set object_prototype_keys"
    by (simp_all add: object_prototype_keys_def)
  then have "\<forall>r \<in> set three_records. date r \<notin> set object_prototype_keys"
    by (simp add: three_records_def sample_measurement_def)
  from groupByDate_duplicates_count [OF this] obtain g dups where
    res: "groupByDate three_records = Inr (g, dups)"
    and len: "length dups = length (dates_with_duplicates three_records)"
    and total: "sum_list (map dup_count dups) =
        length (filter (\<lambda>r. date r \<in> set (dates_with_duplicates three_records)) three_records)"
    by (elim exE conjE) (rule that, assumption+)
  have d: "dates_with_duplicates three_records = [''2024-01-01'']"
    by (simp add: dates_with_duplicates_def date_bucket_def three_records_def sample_measurement_def)
  from len have len': "length dups = 1" by (simp add: d)
  from total have total': "sum_list (map dup_count dups) = 2"
    unfolding d by (simp add: three_records_def sample_measurement_def)
  from k res len' total' show ?thesis by simp
qed

subsection \<open>The parsing pipeline\<close>

text \<open>
  The dates that \<open>transformRenphoData\<close> produces begin with \<open>19\<close> or \<open>20\<close>, so the
  grouping never throws inside \<open>parseFile\<close>, and a parse result has no empty bucket.
\<close>

lemma transformRow_not_prototype_key:
  "transformRow row index = Inr t \<Longrightarrow> date t \<notin> set object_prototype_keys"
  by (auto simp: transformRow_def Let_def object_prototype_keys_def split: if_splits)

lemma transformRenphoData_not_prototype_key:
  assumes "transformRenphoData rows = Inr ts"
  shows "\<forall>t \<in> set ts. date t \<notin> set object_prototype_keys"
proof
  fix t assume "t \<in> set ts"
  then obtain i where i: "i < length ts" "ts ! i = t" by (auto simp: in_set_conv_nth)
  from transform_from_nth [OF assms [unfolded transformRenphoData_def]] i
  have "transformRow (rows ! i) (0 + i) = Inr t" by auto
  then show "date t \<notin> set object_prototype_keys" by (rule transformRow_not_prototype_key)
qed

lemma iso_shape_not_prototype_key: "iso_shape d \<Longrightarrow> d \<notin> set object_prototype_keys"
  by (auto simp: iso_shape_def object_prototype_keys_def)

lemma parseFile_rows_result:
  assumes "parseFile_rows rt rawData = Inr parseResult"
  shows "transformRenphoData rawData = Inr (transformedData parseResult)"
    and "groupByDate (transformedData parseResult) = Inr (grouped parseResult, duplicates parseResult)"
    and "validation parseResult
           = validateMeasurements rt (transformedData parseResult) (duplicates parseResult)"
    and "\<forall>entry \<in> set (grouped parseResult). snd entry \<noteq> []"
proof -
  from assms obtain ts g dups where ts: "transformRenphoData rawData = Inr ts"
    and g: "groupByDate ts = Inr (g, dups)"
    and pr: "parseResult = \<lparr> originalData = rawData, transformedData = ts, grouped = g,
                duplicates = dups, validation = validateMeasurements rt ts dups \<rparr>"
    by (auto simp: parseFile_rows_def split: if_splits sum.splits exn.splits prod.splits)
  show "transformRenphoData rawData = Inr (transformedData parseResult)" by (simp add: pr ts)
  show "groupByDate (transformedData parseResult) = Inr (grouped parseResult, duplicates parseResult)"
    by (simp add: pr g)
  show "validation parseResult
           = validateMeasurements rt (transformedData parseResult) (duplicates parseResult)"
    by (simp add: pr)
  from g obtain gl where "group_loop [] ts = Inr gl" "g = gl"
    by (auto simp: groupByDate_def split: sum.splits)
  then have "group_loop [] ts = Inr g" by simp
  from group_loop_empty(3) [OF this] show "\<forall>entry \<in> set (grouped parseResult). snd entry \<noteq> []"
    by (auto simp: pr)
qed

lemma parseFile_rows_error:
  assumes "parseFile_rows rt rawData = Inl e"
  shows "(rawData = [] \<and> message e = ''No data found in CSV file'') \<or> transformRenphoData rawData = Inl e"
proof (cases "rawData = []")
  case True
  with assms show ?thesis by (auto simp: parseFile_rows_def)
next
  case False
  show ?thesis
  proof (cases "transformRenphoData rawData")
    case (Inl e')
    with assms False show ?thesis by (simp add: parseFile_rows_def)
  next
    case (Inr ts)
    from transformRenphoData_not_prototype_key [OF Inr] group_loop_total [of ts "[]"]
    obtain g where "group_loop [] ts = Inr g" by blast
    with assms False Inr show ?thesis by (simp add: parseFile_rows_def groupByDate_def)
  qed
qed

subsection \<open>Rounding to binary64\<close>

text \<open>Powers of two and exponents.\<close>

lemma pow2_powr: "pow2 k = 2 powr (of_int k)"
  by (simp add: pow2_def powr_int)

lemma pow2_pos [simp]: "0 < pow2 k"
  by (simp add: pow2_powr)

lemma pow2_add: "pow2 (a + b) = pow2 a * pow2 b"
  by (simp add: pow2_powr powr_add)

lemma pow2_diff: "pow2 (a - b) = pow2 a / pow2 b"
  by (simp add: pow2_powr powr_diff)

lemma pow2_0 [simp]: "pow2 0 = 1"
  by (simp add: pow2_def)

lemma pow2_le_iff [simp]: "pow2 a \<le> pow2 b \<longleftrightarrow> a \<le> b"
  by (simp add: pow2_powr)

lemma pow2_less_iff [simp]: "pow2 a < pow2 b \<longleftrightarrow> a < b"
  by (simp add: pow2_powr)

lemma pow2_nat: "0 \<le> k \<Longrightarrow> pow2 k = of_int (2 ^ nat k)"
  by (simp add: pow2_def)

lemma of_int_succ_le: "(n::int) < m \<Longrightarrow> (of_int (n + 1) :: real) \<le> of_int m"
  by (metis of_int_le_iff zless_imp_add1_zle)

lemma exponent_bounds:
  assumes "x \<noteq> 0"
  shows "pow2 (exponent x) \<le> \<bar>x\<bar>" and "\<bar>x\<bar> < pow2 (exponent x + 1)"
proof -
  have "pow2 (exponent x) \<le> \<bar>x\<bar> \<and> \<bar>x\<bar> < pow2 (exponent x + 1)"
  proof (cases "1 \<le> \<bar>x\<bar>")
    case True
    define n where "n = \<lfloor>\<bar>x\<bar>\<rfloor>"
    have n: "1 \<le> n" using True by (simp add: n_def le_floor_iff)
    then have b1: "1 \<le> bitlen n" by (simp add: bitlen_alt_def)
    from bitlen_bounds [of n] n have lo: "2 ^ nat (bitlen n - 1) \<le> n" and hi: "n < 2 ^ nat (bitlen n)"
      by simp_all
    have e: "exponent x = bitlen n - 1" using True by (simp add: exponent_def n_def)
    have "pow2 (bitlen n - 1) = of_int (2 ^ nat (bitlen n - 1))"
      using b1 by (simp add: pow2_nat)
    also have "\<dots> \<le> of_int n" using lo by (simp only: of_int_le_iff)
    also have "\<dots> \<le> \<bar>x\<bar>" by (simp add: n_def)
    finally have A: "pow2 (exponent x) \<le> \<bar>x\<bar>" by (simp add: e)
    have "\<bar>x\<bar> < of_int (n + 1)" unfolding n_def by linarith
    also have "\<dots> \<le> of_int (2 ^ nat (bitlen n))"
      using hi by (rule of_int_succ_le)
    also have "\<dots> = pow2 (bitlen n)" using b1 by (simp add: pow2_nat)
    finally have B: "\<bar>x\<bar> < pow2 (exponent x + 1)" by (simp add: e)
    from A B show ?thesis ..
  next
    case False
    define y where "y = 1 / \<bar>x\<bar>"
    have ax: "0 < \<bar>x\<bar>" "\<bar>x\<bar> < 1" using assms False by simp_all
    then have y1: "1 < y" by (simp add: y_def)
    define m where "m = \<lceil>y\<rceil> - 1"
    have m: "1 \<le> m" using y1 unfolding m_def by linarith
    then have b1: "1 \<le> bitlen m" by (simp add: bitlen_alt_def)
    from bitlen_bounds [of m] m have lo: "2 ^ nat (bitlen m - 1) \<le> m" and hi: "m < 2 ^ nat (bitlen m)"
      by simp_all
    have e: "exponent x = - bitlen m" using False by (simp add: exponent_def m_def y_def)
    have ym: "of_int m < y" "y \<le> of_int (m + 1)" unfolding m_def by linarith+
    have "y \<le> of_int (m + 1)" by (rule ym)
    also have "\<dots> \<le> of_int (2 ^ nat (bitlen m))" using hi by (rule of_int_succ_le)
    also have "\<dots> = pow2 (bitlen m)" using b1 by (simp add: pow2_nat)
    finally have "1 / \<bar>x\<bar> \<le> pow2 (bitlen m)" by (simp add: y_def)
    then have "1 / pow2 (bitlen m) \<le> \<bar>x\<bar>"
      using ax by (simp add: field_simps)
    moreover have "pow2 (- bitlen m) = 1 / pow2 (bitlen m)"
      using pow2_diff [of 0 "bitlen m"] by simp
    ultimately have A: "pow2 (exponent x) \<le> \<bar>x\<bar>" by (simp add: e)
    have "pow2 (bitlen m - 1) = of_int (2 ^ nat (bitlen m - 1))" using b1 by (simp add: pow2_nat)
    also have "\<dots> \<le> of_int m" using lo by (simp only: of_int_le_iff)
    also have "\<dots> < y" by (rule ym)
    finally have "pow2 (bitlen m - 1) < 1 / \<bar>x\<bar>" by (simp add: y_def)
    then have "\<bar>x\<bar> < 1 / pow2 (bitlen m - 1)"
      using ax by (simp add: field_simps)
    moreover have "pow2 (- bitlen m + 1) = 1 / pow2 (bitlen m - 1)"
      using pow2_diff [of 0 "bitlen m - 1"] by simp
    ultimately have B: "\<bar>x\<bar> < pow2 (exponent x + 1)" by (simp add: e)
    from A B show ?thesis ..
  qed
  then show "pow2 (exponent x) \<le> \<bar>x\<bar>" and "\<bar>x\<bar> < pow2 (exponent x + 1)" by simp_all
qed

lemma exponent_unique:
  assumes "pow2 e \<le> \<bar>x\<bar>" "\<bar>x\<bar> < pow2 (e + 1)"
  shows "exponent x = e"
proof -
  have "0 < \<bar>x\<bar>" using less_le_trans [OF pow2_pos assms(1)] .
  then have "x \<noteq> 0" by simp
  note b = exponent_bounds [OF this]
  have "pow2 e < pow2 (exponent x + 1)" using assms(1) b(2) by linarith
  moreover have "pow2 (exponent x) < pow2 (e + 1)" using assms(2) b(1) by linarith
  ultimately show ?thesis by simp
qed

lemma exponent_minus [simp]: "exponent (- x) = exponent x"
  by (simp add: exponent_def)

text \<open>Rounding to the nearest integer, and to the nearest binary64 value.\<close>

lemma round_half_even_of_int [simp]: "round_half_even (of_int k) = k"
  by (simp add: round_half_even_def)

lemma round_half_even_near:
  assumes "\<bar>x - of_int k\<bar> < 1 / 2"
  shows "round_half_even x = k"
proof (cases "of_int k \<le> x")
  case True
  with assms have "\<lfloor>x\<rfloor> = k" by linarith
  with assms True show ?thesis by (simp add: round_half_even_def Let_def)
next
  case False
  with assms have "\<lfloor>x\<rfloor> = k - 1" by linarith
  with assms False show ?thesis by (simp add: round_half_even_def Let_def)
qed

lemma round_half_even_tie:
  assumes "\<bar>x - of_int k\<bar> \<le> 1 / 2" "even k"
  shows "round_half_even x = k"
proof -
  consider "\<bar>x - of_int k\<bar> < 1 / 2" | "x = of_int k + 1 / 2" | "x = of_int k - 1 / 2"
    using assms(1) by linarith
  then show ?thesis
  proof cases
    case 1
    then show ?thesis by (rule round_half_even_near)
  next
    case 2
    then have "\<lfloor>x\<rfloor> = k" by linarith
    with 2 assms(2) show ?thesis by (simp add: round_half_even_def Let_def)
  next
    case 3
    then have "\<lfloor>x\<rfloor> = k - 1" by linarith
    with 3 assms(2) show ?thesis by (simp add: round_half_even_def Let_def)
  qed
qed

lemma round_half_even_error: "\<bar>of_int (round_half_even x) - x\<bar> \<le> 1 / 2"
  unfolding round_half_even_def Let_def by (simp; linarith)

lemma round_half_even_ge: "of_int k \<le> x \<Longrightarrow> k \<le> round_half_even x"
  unfolding round_half_even_def Let_def by (simp add: le_floor_iff; linarith)

lemma round_half_even_le: "x \<le> of_int k \<Longrightarrow> round_half_even x \<le> k"
proof -
  assume a: "x \<le> of_int k"
  show ?thesis
  proof (cases "x = of_int k")
    case True
    then show ?thesis by simp
  next
    case False
    with a have "\<lfloor>x\<rfloor> + 1 \<le> k" by linarith
    then show ?thesis unfolding round_half_even_def Let_def by simp
  qed
qed

lemma round_half_even_minus: "round_half_even (- x) = - round_half_even x"
proof -
  have e: "\<bar>- x - of_int (- round_half_even x)\<bar> \<le> 1 / 2"
    using round_half_even_error [of x] by simp
  show ?thesis
  proof (cases "\<bar>of_int (round_half_even x) - x\<bar> < 1 / 2")
    case True
    then have "\<bar>- x - of_int (- round_half_even x)\<bar> < 1 / 2" by simp
    then show ?thesis by (rule round_half_even_near)
  next
    case False
    with round_half_even_error [of x] have t: "\<bar>of_int (round_half_even x) - x\<bar> = 1 / 2" by linarith
    have "even (round_half_even x)"
    proof -
      from t consider "x = of_int (round_half_even x) + 1 / 2" | "x = of_int (round_half_even x) - 1 / 2"
        by linarith
      then show ?thesis
      proof cases
        case 1
        then have f: "\<lfloor>x\<rfloor> = round_half_even x" by linarith
        have "x - of_int \<lfloor>x\<rfloor> = 1 / 2" using 1 f by simp
        then have "round_half_even x = (if even \<lfloor>x\<rfloor> then \<lfloor>x\<rfloor> else \<lfloor>x\<rfloor> + 1)"
          by (simp add: round_half_even_def Let_def)
        with f show ?thesis by (auto split: if_splits)
      next
        case 2
        then have f: "\<lfloor>x\<rfloor> = round_half_even x - 1" by linarith
        have "x - of_int \<lfloor>x\<rfloor> = 1 / 2" using 2 f by simp
        then have "round_half_even x = (if even \<lfloor>x\<rfloor> then \<lfloor>x\<rfloor> else \<lfloor>x\<rfloor> + 1)"
          by (simp add: round_half_even_def Let_def)
        with f show ?thesis by (auto split: if_splits)
      qed
    qed
    then have "even (- round_half_even x)" by simp
    with e show ?thesis by (rule round_half_even_tie)
  qed
qed

lemma binary64_ulp: "x \<noteq> 0 \<Longrightarrow> binary64 x = of_int (round_half_even (x / ulp x)) * ulp x"
  by (simp add: binary64_def)

lemma ulp_pos [simp]: "0 < ulp x"
  by (simp add: ulp_def)

lemma ulp_nonneg [simp]: "0 \<le> ulp x"
  by (simp add: ulp_def less_imp_le)

lemma ulp_neq0 [simp]: "ulp x \<noteq> 0"
  using ulp_pos [of x] by linarith

lemma ulp_minus [simp]: "ulp (- x) = ulp x"
  by (simp add: ulp_def ulp_exponent_def)

lemma binary64_0 [simp]: "binary64 0 = 0"
  by (simp add: binary64_def)

lemma binary64_minus: "binary64 (- x) = - binary64 x"
  by (cases "x = 0") (simp_all add: binary64_ulp round_half_even_minus)

text \<open>Rounding to a point of the grid of \<open>z\<close>.\<close>

lemma binary64_grid:
  assumes "z \<noteq> 0" "m = of_int K * ulp z" "\<bar>z - m\<bar> \<le> ulp z / 2"
    and "\<bar>z - m\<bar> < ulp z / 2 \<or> even K"
  shows "binary64 z = m"
proof -
  have d: "z / ulp z - of_int K = (z - m) / ulp z"
    by (simp add: assms(2) diff_divide_distrib)
  have a: "\<bar>z / ulp z - of_int K\<bar> \<le> 1 / 2"
    unfolding d using assms(3) by (simp add: field_simps)
  have "round_half_even (z / ulp z) = K"
  proof (cases "even K")
    case True
    with a show ?thesis by (rule round_half_even_tie)
  next
    case False
    with assms(4) have "\<bar>z - m\<bar> < ulp z / 2" by simp
    then have "\<bar>z / ulp z - of_int K\<bar> < 1 / 2"
      unfolding d by (simp add: field_simps)
    then show ?thesis by (rule round_half_even_near)
  qed
  with assms(1,2) show ?thesis by (simp add: binary64_ulp)
qed

lemma binary64_error: "\<bar>binary64 x - x\<bar> \<le> ulp x / 2"
proof (cases "x = 0")
  case True
  then show ?thesis by simp
next
  case False
  have "binary64 x - x = (of_int (round_half_even (x / ulp x)) - x / ulp x) * ulp x"
    using False by (simp add: binary64_ulp left_diff_distrib)
  then have "\<bar>binary64 x - x\<bar> = \<bar>of_int (round_half_even (x / ulp x)) - x / ulp x\<bar> * ulp x"
    by (simp add: abs_mult)
  also have "\<dots> \<le> 1 / 2 * ulp x"
    by (rule mult_right_mono [OF round_half_even_error]) simp
  finally show ?thesis by simp
qed

lemma ulp_eq: "ulp x = pow2 (ulp_exponent x)"
  by (rule ulp_def)

lemma pow2_numeral_53: "pow2 53 = 2 ^ 53" "pow2 52 = 2 ^ 52"
  by (simp_all add: pow2_def)

lemma pow2_int [simp]: "pow2 (int j) = 2 ^ j"
  by (simp add: pow2_def)

lemma pow2_1 [simp]: "pow2 1 = 2"
  by (simp add: pow2_def)

lemma pow2_nonneg [simp]: "0 \<le> pow2 k"
  using pow2_pos [of k] by linarith

lemma pow2_neq0 [simp]: "pow2 k \<noteq> 0"
  using pow2_pos [of k] by linarith

lemma abs_2_53:
  assumes "\<bar>N :: int\<bar> = 2 ^ 53"
  obtains H where "\<bar>H\<bar> < 2 ^ 53" "N = 2 * H"
proof -
  from assms consider "N = 2 ^ 53" | "N = - (2 ^ 53)" by linarith
  then show ?thesis
  proof cases
    case 1
    show ?thesis by (rule that [of "2 ^ 52"]) (simp_all add: 1)
  next
    case 2
    show ?thesis by (rule that [of "- (2 ^ 52)"]) (simp_all add: 2)
  qed
qed

text \<open>
  The binary64 value of a number is a significand of at most 53 bits at the unit in the last
  place; such numbers are binary64 values, and so are the integers up to \<open>2\<^sup>5\<^sup>3\<close>.
\<close>

lemma abs_quotient_ulp:
  assumes "x \<noteq> 0"
  shows "\<bar>x / ulp x\<bar> < 2 ^ 53"
proof -
  have "\<bar>x\<bar> < pow2 (exponent x + 1)" by (rule exponent_bounds [OF assms])
  also have "\<dots> \<le> pow2 (ulp_exponent x + 53)" by (simp add: ulp_exponent_def)
  also have "\<dots> = ulp x * 2 ^ 53" by (simp add: pow2_add ulp_eq pow2_numeral_53)
  finally have "\<bar>x\<bar> / ulp x < 2 ^ 53" by (simp add: field_simps)
  then show ?thesis by simp
qed

lemma binary64_form:
  assumes "x \<noteq> 0"
  shows "\<exists>N. \<bar>N\<bar> \<le> 2 ^ 53 \<and> binary64 x = of_int N * pow2 (ulp_exponent x)"
proof -
  let ?q = "x / ulp x"
  from abs_quotient_ulp [OF assms] have "?q \<le> 2 ^ 53" "- (2 ^ 53) \<le> ?q"
    by linarith+
  then have q: "?q \<le> of_int (2 ^ 53)" "of_int (- (2 ^ 53)) \<le> ?q"
    by simp_all
  have "round_half_even ?q \<le> 2 ^ 53" by (rule round_half_even_le [OF q(1)])
  moreover have "- (2 ^ 53) \<le> round_half_even ?q" by (rule round_half_even_ge [OF q(2)])
  ultimately have "\<bar>round_half_even ?q\<bar> \<le> 2 ^ 53" by simp
  moreover have "binary64 x = of_int (round_half_even ?q) * pow2 (ulp_exponent x)"
    using assms by (simp add: binary64_ulp ulp_eq)
  ultimately show ?thesis by blast
qed

lemma ulp_exponent_ge: "- 1074 \<le> ulp_exponent x"
  by (simp add: ulp_exponent_def)

lemma binary64_representable:
  assumes "\<bar>N\<bar> < 2 ^ 53" "- 1074 \<le> k"
  shows "binary64 (of_int N * pow2 k) = of_int N * pow2 k"
proof (cases "N = 0")
  case True
  then show ?thesis by simp
next
  case False
  let ?y = "of_int N * pow2 k"
  have y0: "?y \<noteq> 0" using False by simp
  have "\<bar>?y\<bar> = of_int \<bar>N\<bar> * pow2 k" by (simp add: abs_mult)
  also have "\<dots> < of_int (2 ^ 53) * pow2 k"
    using assms(1) by (intro mult_strict_right_mono) (simp_all only: of_int_less_iff pow2_pos)
  also have "\<dots> = pow2 (k + 53)" by (simp add: pow2_add pow2_numeral_53)
  finally have "pow2 (exponent ?y) < pow2 (k + 53)"
    using exponent_bounds(1) [OF y0] by linarith
  then have "exponent ?y < k + 53" by simp
  with assms(2) have c: "ulp_exponent ?y \<le> k" by (simp add: ulp_exponent_def)
  define j where "j = nat (k - ulp_exponent ?y)"
  have "pow2 k = pow2 (ulp_exponent ?y + int j)" using c by (simp add: j_def)
  also have "\<dots> = ulp ?y * 2 ^ j" by (simp add: pow2_add ulp_eq)
  finally have "pow2 k = ulp ?y * 2 ^ j" .
  then have "?y = of_int N * (ulp ?y * 2 ^ j)" by (rule arg_cong)
  then have "?y = of_int (N * 2 ^ j) * ulp ?y" by (simp add: mult.commute mult.left_commute)
  from binary64_grid [OF y0 this] show ?thesis by simp
qed

lemma binary64_idem [simp]: "binary64 (binary64 x) = binary64 x"
proof (cases "x = 0")
  case True
  then show ?thesis by simp
next
  case False
  from binary64_form [OF this] obtain N where
    N: "\<bar>N\<bar> \<le> 2 ^ 53" "binary64 x = of_int N * pow2 (ulp_exponent x)" by blast
  show ?thesis
  proof (cases "\<bar>N\<bar> < 2 ^ 53")
    case True
    from binary64_representable [OF True ulp_exponent_ge] show ?thesis by (simp add: N(2))
  next
    case False
    with N(1) have "\<bar>N\<bar> = 2 ^ 53" by simp
    then obtain H where H: "\<bar>H\<bar> < 2 ^ 53" "N = 2 * H" by (rule abs_2_53)
    have "binary64 x = of_int H * pow2 (ulp_exponent x + 1)"
      unfolding N(2) pow2_add by (simp add: H(2))
    moreover have "- 1074 \<le> ulp_exponent x + 1" using ulp_exponent_ge [of x] by simp
    ultimately show ?thesis
      using binary64_representable [OF H(1), of "ulp_exponent x + 1"] by simp
  qed
qed

lemma binary64_of_int:
  assumes "\<bar>k\<bar> \<le> 2 ^ 53"
  shows "binary64 (of_int k) = of_int k"
proof (cases "\<bar>k\<bar> < 2 ^ 53")
  case True
  from binary64_representable [OF True, of 0] show ?thesis by simp
next
  case False
  with assms have "\<bar>k\<bar> = 2 ^ 53" by simp
  then obtain H where H: "\<bar>H\<bar> < 2 ^ 53" "k = 2 * H" by (rule abs_2_53)
  from binary64_representable [OF H(1), of 1] have
    "binary64 (of_int H * 2) = of_int H * 2" by simp
  then show ?thesis by (simp add: H(2) mult.commute)
qed

lemma pow2_numerals:
  "pow2 49 = 2 ^ 49" "pow2 4 = 16" "pow2 3 = 8" "pow2 5 = 32" "pow2 (- 4) = 1 / 16"
  by (simp_all add: pow2_def)

text \<open>
  Dividing an integer by ten and multiplying the quotient by ten gives the integer back,
  as long as binary64 has tenths at the magnitude of the quotient.
\<close>

lemma tenth_round_trip_pos:
  fixes m :: int
  assumes "0 < m" "of_int m / 10 < (2::real) ^ 49"
  shows "binary64 (binary64 (of_int m / 10) * 10) = of_int m \<and>
         \<bar>binary64 (of_int m / 10) * 10 - of_int m\<bar> \<le> 1 / 4"
proof -
  define q :: real where "q = of_int m / 10"
  define e where "e = exponent q"
  have "1 \<le> m" using assms(1) by simp
  then have "(1::real) \<le> of_int m" by (simp only: of_int_1_le_iff)
  then have qlo: "1 / 10 \<le> q" by (simp add: q_def)
  then have q0: "q \<noteq> 0" and qa: "\<bar>q\<bar> = q" by simp_all
  have eb: "pow2 e \<le> q" "q < pow2 (e + 1)"
    using exponent_bounds [OF q0] by (simp_all add: e_def qa)
  have "pow2 e < pow2 49" using eb(1) assms(2) by (simp add: q_def pow2_numerals)
  then have e_hi: "e \<le> 48" by simp
  have "pow2 (- 4) < pow2 (e + 1)" using eb(2) qlo by (simp add: pow2_numerals)
  then have e_lo: "- 4 \<le> e" by simp
  define u where "u = pow2 (e - 52)"
  have u0: "0 < u" by (simp add: u_def)
  have ulp_q: "ulp q = u" using e_lo by (simp add: ulp_def ulp_exponent_def u_def e_def)
  have pe: "pow2 e = 2 ^ 52 * u"
    using pow2_add [of 52 "e - 52"] by (simp add: u_def pow2_numeral_53)
  define M where "M = m * 2 ^ nat (48 - e)"
  have "of_int M = of_int m * pow2 (48 - e)" using e_hi by (simp add: M_def pow2_def)
  moreover have "pow2 4 * pow2 (48 - e) * pow2 (e - 52) = 1"
    using pow2_add [of 4 "48 - e"] pow2_add [of "52 - e" "e - 52"] by simp
  ultimately have m_eq: "of_int m = 16 * of_int M * u"
    by (simp add: u_def pow2_numerals algebra_simps)
  define N where "N = round_half_even (q / u)"
  have x: "binary64 q = of_int N * u"
    using q0 by (simp add: binary64_ulp ulp_q N_def)
  have qu: "q / u = 8 * of_int M / 5"
    using u0 by (simp add: q_def m_eq)
  have r: "\<bar>of_int N - q / u\<bar> \<le> 1 / 2" unfolding N_def by (rule round_half_even_error)
  have "(of_int (5 * N - 8 * M) :: real) = 5 * (of_int N - q / u)" by (simp add: qu)
  then have "\<bar>of_int (5 * N - 8 * M) :: real\<bar> = 5 * \<bar>of_int N - q / u\<bar>"
    by (simp only: abs_mult abs_numeral)
  also have "\<dots> \<le> 5 * (1 / 2)" using r by (rule mult_left_mono) simp
  finally have "\<bar>of_int (5 * N - 8 * M) :: real\<bar> \<le> 5 / 2" by simp
  then have "\<bar>of_int (5 * N - 8 * M) :: real\<bar> < of_int 3" by linarith
  then have "\<bar>5 * N - 8 * M\<bar> < 3" by (simp only: of_int_abs [symmetric] of_int_less_iff)
  then have k: "\<bar>5 * N - 8 * M\<bar> \<le> 2" by simp
  define z where "z = binary64 q * 10"
  have zm: "z - of_int m = 2 * u * of_int (5 * N - 8 * M)"
    by (simp add: z_def x m_eq algebra_simps)
  have "\<bar>z - of_int m\<bar> = 2 * u * of_int \<bar>5 * N - 8 * M\<bar>"
    unfolding zm using u0 by (simp add: abs_mult)
  also have "\<dots> \<le> 2 * u * of_int 2"
  proof (rule mult_left_mono)
    show "(of_int \<bar>5 * N - 8 * M\<bar> :: real) \<le> of_int 2" using k by (simp only: of_int_le_iff)
    show "0 \<le> 2 * u" using u0 by simp
  qed
  finally have d: "\<bar>z - of_int m\<bar> \<le> 4 * u" by simp
  have "u \<le> pow2 (- 4)" using e_hi by (simp add: u_def)
  then have u16: "u \<le> 1 / 16" by (simp add: pow2_numerals)
  with d have second: "\<bar>z - of_int m\<bar> \<le> 1 / 4" by linarith
  have "of_int (2 ^ 52) \<le> q / u" using eb(1) u0 by (simp add: pe field_simps)
  then have "2 ^ 52 \<le> N" unfolding N_def by (rule round_half_even_ge)
  then have Nlo: "(2::real) ^ 52 \<le> of_int N"
    by (metis of_int_le_iff of_int_numeral of_int_power)
  have "q < pow2 (e + 1)" by (rule eb)
  also have "\<dots> = 2 ^ 53 * u" using pow2_add [of e 1] by (simp add: pe)
  finally have "q / u \<le> of_int (2 ^ 53)" using u0 by (simp add: field_simps)
  then have "N \<le> 2 ^ 53" unfolding N_def by (rule round_half_even_le)
  then have Nhi: "of_int N \<le> (2::real) ^ 53"
    by (metis of_int_le_iff of_int_numeral of_int_power)
  have zN: "z = 10 * of_int N * u" by (simp add: z_def x)
  have "pow2 (e + 3) = 8 * 2 ^ 52 * u" using pow2_add [of e 3] by (simp add: pe pow2_numerals)
  also have "\<dots> \<le> 10 * of_int N * u" using Nlo u0 by simp
  finally have zlo: "pow2 (e + 3) \<le> z" by (simp add: zN)
  have "z \<le> 10 * 2 ^ 53 * u" unfolding zN using Nhi u0 by simp
  also have "\<dots> < 32 * 2 ^ 52 * u" using u0 by simp
  also have "\<dots> = pow2 (e + 5)" using pow2_add [of e 5] by (simp add: pe pow2_numerals)
  finally have zhi: "z < pow2 (e + 5)" .
  have z0: "z \<noteq> 0" and za: "\<bar>z\<bar> = z"
    using zlo pow2_pos [of "e + 3"] by linarith+
  define ez where "ez = exponent z"
  have ezb: "pow2 ez \<le> z" "z < pow2 (ez + 1)"
    using exponent_bounds [OF z0] by (simp_all add: ez_def za)
  have "pow2 (e + 3) < pow2 (ez + 1)" using zlo ezb(2) by linarith
  moreover have "pow2 ez < pow2 (e + 5)" using zhi ezb(1) by linarith
  ultimately have "ez = e + 3 \<or> ez = e + 4" by simp linarith
  then have "binary64 z = of_int m"
  proof
    assume a: "ez = e + 3"
    have uz: "ulp z = 8 * u"
      using e_lo pow2_add [of 3 "e - 52"] by (simp add: ulp_def ulp_exponent_def ez_def [symmetric] a u_def pow2_numerals)
    show ?thesis
    proof (rule binary64_grid [OF z0, where K = "2 * M"])
      show "of_int m = of_int (2 * M) * ulp z" by (simp add: uz m_eq)
      show "\<bar>z - of_int m\<bar> \<le> ulp z / 2" using d by (simp add: uz)
      show "\<bar>z - of_int m\<bar> < ulp z / 2 \<or> even (2 * M)" by simp
    qed
  next
    assume a: "ez = e + 4"
    have uz: "ulp z = 16 * u"
      using e_lo pow2_add [of 4 "e - 52"] by (simp add: ulp_def ulp_exponent_def ez_def [symmetric] a u_def pow2_numerals)
    show ?thesis
    proof (rule binary64_grid [OF z0, where K = M])
      show "of_int m = of_int M * ulp z" by (simp add: uz m_eq)
      show "\<bar>z - of_int m\<bar> \<le> ulp z / 2" using d u0 by (simp add: uz)
      show "\<bar>z - of_int m\<bar> < ulp z / 2 \<or> even M" using d u0 by (simp add: uz)
    qed
  qed
  with second show ?thesis by (simp add: z_def q_def)
qed

lemma tenth_round_trip:
  fixes m :: int
  assumes "\<bar>of_int m / 10\<bar> < (2::real) ^ 49"
  shows "binary64 (binary64 (of_int m / 10) * 10) = of_int m \<and>
         \<bar>binary64 (of_int m / 10) * 10 - of_int m\<bar> \<le> 1 / 4"
proof -
  consider "0 < m" | "m = 0" | "0 < - m" by linarith
  then show ?thesis
  proof cases
    case 1
    with assms show ?thesis by (intro tenth_round_trip_pos) simp_all
  next
    case 2
    then show ?thesis by simp
  next
    case 3
    with assms have "of_int (- m) / 10 < (2::real) ^ 49" by simp
    from tenth_round_trip_pos [OF 3 this]
    have "binary64 (binary64 (of_int m / 10) * 10) = of_int m"
      and "\<bar>of_int m - binary64 (of_int m / 10) * 10\<bar> \<le> 1 / 4"
      by (simp_all add: binary64_minus)
    then show ?thesis by (simp add: abs_minus_commute)
  qed
qed

lemma is_double_binary64 [simp]: "is_double (binary64 x)"
  by (simp add: is_double_def)

lemma is_double_of_int: "\<bar>k\<bar> \<le> 2 ^ 53 \<Longrightarrow> is_double (of_int k)"
  by (simp add: is_double_def binary64_of_int)

lemma binary64_numeral_small [simp]:
  "binary64 10 = 10" "binary64 1 = 1"
  using binary64_of_int [of 10] binary64_of_int [of 1] by simp_all

lemma binary64_nonneg: "0 \<le> x \<Longrightarrow> 0 \<le> binary64 x"
proof (cases "x = 0")
  case True
  then show ?thesis by simp
next
  case False
  assume "0 \<le> x"
  then have "of_int 0 \<le> x / ulp x" by simp
  then have "0 \<le> round_half_even (x / ulp x)" by (rule round_half_even_ge)
  then show ?thesis using False by (simp add: binary64_ulp)
qed

lemma binary64_abs: "binary64 \<bar>x\<bar> = \<bar>binary64 x\<bar>"
proof (cases "0 \<le> x")
  case True
  then show ?thesis using binary64_nonneg [of x] by simp
next
  case False
  then have "0 \<le> binary64 (- x)" by (intro binary64_nonneg) simp
  then have "binary64 x \<le> 0" by (simp add: binary64_minus)
  with False show ?thesis by (simp add: binary64_minus)
qed

lemma binary64_lower:
  assumes "x \<noteq> 0" "- 1022 \<le> exponent x"
  shows "\<bar>x\<bar> < 2 * \<bar>binary64 x\<bar>"
proof -
  have u: "ulp x = pow2 (exponent x - 52)" using assms(2) by (simp add: ulp_def ulp_exponent_def)
  have pe: "pow2 (exponent x) = 2 ^ 52 * ulp x"
    using pow2_add [of 52 "exponent x - 52"] by (simp add: u pow2_numeral_53)
  have b: "pow2 (exponent x) \<le> \<bar>x\<bar>" "\<bar>x\<bar> < pow2 (exponent x + 1)"
    by (rule exponent_bounds [OF assms(1)])+
  have "of_int (2 ^ 52) \<le> \<bar>x\<bar> / ulp x" using b(1) by (simp add: pe field_simps)
  then have "2 ^ 52 \<le> round_half_even (\<bar>x\<bar> / ulp x)" by (rule round_half_even_ge)
  then have "(2::real) ^ 52 \<le> of_int (round_half_even (\<bar>x\<bar> / ulp x))"
    by (metis of_int_le_iff of_int_numeral of_int_power)
  then have "2 ^ 52 * ulp x \<le> of_int (round_half_even (\<bar>x\<bar> / ulp x)) * ulp x"
    by (rule mult_right_mono) simp
  also have "\<dots> = binary64 \<bar>x\<bar>" using assms(1) by (simp add: binary64_ulp ulp_def ulp_exponent_def exponent_def)
  also have "\<dots> = \<bar>binary64 x\<bar>" by (rule binary64_abs)
  finally have "pow2 (exponent x) \<le> \<bar>binary64 x\<bar>" by (simp add: pe)
  moreover have "pow2 (exponent x + 1) = 2 * pow2 (exponent x)" by (simp add: pow2_add)
  ultimately show ?thesis using b(2) by linarith
qed


subsection \<open>Daily averages\<close>

text \<open>Rounding to one decimal, and the binary64 mean.\<close>

lemma Math_pow_10_1 [simp]: "Math_pow 10 (Suc 0) = 10"
  by (simp add: Math_pow_def)

lemma roundToDecimal_one:
  "roundToDecimal x (Suc 0) = binary64 (Math_round (binary64 (x * 10)) / 10)"
  by (simp add: roundToDecimal_def Number_divide_def Number_multiply_def)

lemma roundToDecimal_1:
  "roundToDecimal x 1 = binary64 (Math_round (binary64 (x * 10)) / 10)"
  by (simp add: roundToDecimal_one)

lemma is_integer_of_int [simp]: "is_integer (of_int k)"
  by (simp add: is_integer_def)

lemma Math_round_nearest: "nearest_integer_ties_up x (Math_round x)"
  unfolding nearest_integer_ties_up_def Math_round_def
  by (simp; linarith)

lemma Math_round_half_away: "0 \<le> x \<Longrightarrow> Math_round x = round_half_away_from_zero x"
  by (cases "x = 0") (simp_all add: Math_round_def round_half_away_from_zero_def sgn_real_def)

lemma roundToDecimal_rounded: "rounded_to_tenth x (roundToDecimal x 1)"
  unfolding rounded_to_tenth_def roundToDecimal_1
  by (rule exI [of _ "Math_round (binary64 (x * 10))"]) (simp add: Math_round_nearest)

lemma roundToDecimal_half_away:
  assumes "0 \<le> x"
  shows "roundToDecimal x 1 = binary64 (round_half_away_from_zero (binary64 (x * 10)) / 10)"
proof -
  from assms have "0 \<le> binary64 (x * 10)" by (intro binary64_nonneg) simp
  then show ?thesis by (simp add: roundToDecimal_one Math_round_half_away)
qed

lemma reduce_sum_binary64_sum: "reduce_sum f rs = binary64_sum (map f rs)"
  by (simp add: reduce_sum_def binary64_sum_def Number_add_def foldl_map)

lemma reduce_sum_mean:
  "Number_divide (reduce_sum f rs) (real (length rs)) = binary64_mean (map f rs)"
  by (simp add: reduce_sum_binary64_sum binary64_mean_def Number_divide_def)

lemma binary64_sum_snoc: "binary64_sum (ys @ [x]) = binary64 (binary64_sum ys + x)"
  by (simp add: binary64_sum_def)

lemma binary64_sum_exact:
  "list_all (\<lambda>k. is_double (sum_list (take k xs))) [1..<Suc (length xs)] \<Longrightarrow>
   binary64_sum xs = sum_list xs"
proof (induction xs rule: rev_induct)
  case Nil
  then show ?case by (simp add: binary64_sum_def)
next
  case (snoc x ys)
  have a: "\<forall>k \<in> {1..<Suc (Suc (length ys))}. is_double (sum_list (take k (ys @ [x])))"
    using snoc.prems by (simp only: list_all_iff set_upt length_append_singleton)
  have "list_all (\<lambda>k. is_double (sum_list (take k ys))) [1..<Suc (length ys)]"
    unfolding list_all_iff
  proof
    fix k assume "k \<in> set [1..<Suc (length ys)]"
    then have k: "1 \<le> k" "k \<le> length ys" by auto
    then have "k \<in> {1..<Suc (Suc (length ys))}" by simp
    with a have "is_double (sum_list (take k (ys @ [x])))" by (rule bspec)
    with k show "is_double (sum_list (take k ys))" by simp
  qed
  then have ih: "binary64_sum ys = sum_list ys" by (rule snoc.IH)
  have "Suc (length ys) \<in> {1..<Suc (Suc (length ys))}" by simp
  with a have "is_double (sum_list (take (Suc (length ys)) (ys @ [x])))" by (rule bspec)
  then have "binary64 (sum_list ys + x) = sum_list ys + x" by (simp add: is_double_def)
  then show ?case by (simp add: binary64_sum_snoc ih)
qed

lemma exact_in_binary64_mean:
  assumes "exact_in_binary64 xs"
  shows "binary64_mean xs = mean xs" and "binary64 (mean xs * 10) = mean xs * 10"
proof -
  from assms have "binary64_sum xs = sum_list xs"
    unfolding exact_in_binary64_def by (intro binary64_sum_exact) simp
  moreover from assms have "binary64 (mean xs) = mean xs"
    by (simp add: exact_in_binary64_def is_double_def)
  ultimately show "binary64_mean xs = mean xs" by (simp add: binary64_mean_def mean_def)
  from assms show "binary64 (mean xs * 10) = mean xs * 10"
    by (simp add: exact_in_binary64_def is_double_def)
qed

lemma Math_round_tenth: "nearest_tenth_ties_up x (Math_round (x * 10) / 10)"
proof -
  have "nearest_integer_ties_up (x * 10) (Math_round (x * 10))" by (rule Math_round_nearest)
  then show ?thesis
    unfolding nearest_integer_ties_up_def nearest_tenth_ties_up_def
    by (simp add: field_simps)
qed

lemma roundToDecimal_exact:
  assumes "exact_in_binary64 xs"
  shows "\<exists>t. nearest_tenth_ties_up (mean xs) t \<and> roundToDecimal (binary64_mean xs) 1 = binary64 t"
  by (rule exI [of _ "Math_round (mean xs * 10) / 10"])
     (simp add: Math_round_tenth roundToDecimal_one exact_in_binary64_mean [OF assms])

lemma binary64_numeral [simp]:
  "(numeral n :: int) \<le> 2 ^ 53 \<Longrightarrow> binary64 (numeral n) = numeral n"
  using binary64_of_int [of "numeral n"] by simp

text \<open>The average of an entry.\<close>

lemma average_entry_fields:
  assumes "rs \<noteq> []"
  shows "\<exists>m. average_entry (d, rs) = Inr m \<and> date m = d \<and> time m = time (hd rs) \<and>
             source m = renpho_import \<and>
             list_all (\<lambda>f. f m = roundToDecimal (binary64_mean (map f rs)) 1) decimal_fields \<and>
             list_all (\<lambda>f. f m = Math_round (binary64_mean (map f rs))) integer_fields"
  unfolding average_entry_def Let_def prod.case reduce_sum_mean
  using assms by (cases rs) (simp_all add: decimal_fields_def integer_fields_def)

lemma average_entry_daily_average:
  assumes "snd entry \<noteq> []"
  shows "\<exists>m. average_entry entry = Inr m \<and> daily_average entry m"
proof -
  obtain d rs where e: "entry = (d, rs)" by (cases entry)
  with assms have "rs \<noteq> []" by simp
  from average_entry_fields [OF this, of d] obtain m where
    m: "average_entry (d, rs) = Inr m" "date m = d" "time m = time (hd rs)" "source m = renpho_import"
    and dec: "list_all (\<lambda>f. f m = roundToDecimal (binary64_mean (map f rs)) 1) decimal_fields"
    and int: "list_all (\<lambda>f. f m = Math_round (binary64_mean (map f rs))) integer_fields"
    by (elim exE conjE) (rule that, assumption+)
  have dec': "list_all (\<lambda>f. rounded_to_tenth (binary64_mean (map f rs)) (f m) \<and>
                     (0 \<le> binary64_mean (map f rs) \<longrightarrow>
                        f m = binary64 (round_half_away_from_zero
                                (binary64 (binary64_mean (map f rs) * 10)) / 10)) \<and>
                     (exact_in_binary64 (map f rs) \<longrightarrow>
                        (\<exists>t. nearest_tenth_ties_up (mean (map f rs)) t \<and> f m = binary64 t)))
                decimal_fields"
    using dec
  proof (rule list.pred_mono_strong)
    fix f assume f: "f m = roundToDecimal (binary64_mean (map f rs)) 1"
    show "rounded_to_tenth (binary64_mean (map f rs)) (f m) \<and>
          (0 \<le> binary64_mean (map f rs) \<longrightarrow>
             f m = binary64 (round_half_away_from_zero
                     (binary64 (binary64_mean (map f rs) * 10)) / 10)) \<and>
          (exact_in_binary64 (map f rs) \<longrightarrow>
             (\<exists>t. nearest_tenth_ties_up (mean (map f rs)) t \<and> f m = binary64 t))"
      unfolding f
      using roundToDecimal_rounded roundToDecimal_half_away roundToDecimal_exact by simp
  qed
  have int': "list_all (\<lambda>f. nearest_integer_ties_up (binary64_mean (map f rs)) (f m)) integer_fields"
    using int by (rule list.pred_mono_strong) (metis Math_round_nearest)
  show ?thesis
    unfolding daily_average_def e using m dec' int' by simp
qed

lemma average_entry_empty:
  "\<exists>e. average_entry (d, []) = Inl e"
  by (simp add: average_entry_def)

lemma map_throw_list_all2:
  "\<forall>x \<in> set xs. \<exists>y. f x = Inr y \<and> P x y \<Longrightarrow> \<exists>ys. map_throw f xs = Inr ys \<and> list_all2 P xs ys"
proof (induction xs)
  case Nil
  then show ?case by simp
next
  case (Cons x xs)
  then obtain y ys where "f x = Inr y" "P x y" "map_throw f xs = Inr ys" "list_all2 P xs ys"
    by auto
  then show ?case by simp
qed

lemma map_throw_Inl:
  "x \<in> set xs \<Longrightarrow> f x = Inl e \<Longrightarrow> \<exists>e'. map_throw f xs = Inl e'"
  by (induction xs) (auto split: sum.splits)

lemma averageDailyMeasurements_throws:
  assumes "entry \<in> set g" "snd entry = []"
  shows "\<exists>e. averageDailyMeasurements g = Inl e"
proof -
  obtain d where "entry = (d, [])" using assms(2) by (cases entry) auto
  then have "\<exists>e. average_entry entry = Inl e" by (simp add: average_entry_def)
  then obtain e where "average_entry entry = Inl e" ..
  moreover have "entry \<in> set (object_entries g)" using assms(1) by simp
  ultimately show ?thesis
    unfolding averageDailyMeasurements_def by (rule map_throw_Inl [rotated])
qed

lemma list_all2_daily_average_dates:
  "list_all2 daily_average es out \<Longrightarrow> map date out = map fst es"
  by (induction rule: list_all2_induct) (simp_all add: daily_average_def)

lemma averageDailyMeasurements_total:
  assumes "\<forall>entry \<in> set g. snd entry \<noteq> []"
  shows "\<exists>out. averageDailyMeasurements g = Inr out \<and>
              list_all2 daily_average (object_entries g) out \<and>
              map date out = map fst (object_entries g)"
proof -
  have "\<forall>entry \<in> set (object_entries g). \<exists>m. average_entry entry = Inr m \<and> daily_average entry m"
    using assms average_entry_daily_average by simp
  from map_throw_list_all2 [OF this] obtain out where
    out: "averageDailyMeasurements g = Inr out" "list_all2 daily_average (object_entries g) out"
    unfolding averageDailyMeasurements_def by blast
  from out list_all2_daily_average_dates [OF out(2)] show ?thesis by simp
qed

lemma group_two_same_date:
  assumes "date r1 = d" "date r2 = d" "d \<notin> set object_prototype_keys"
  shows "groupByDate [r1, r2] = Inr ([(d, [r1, r2])], find_duplicates [(d, [r1, r2])])"
  using assms by (simp add: groupByDate_def group_push_def)

lemma binary64_mean_70_72: "binary64_mean [70, 72] = 71"
  by (simp add: binary64_mean_def binary64_sum_def)

lemma roundToDecimal_71: "roundToDecimal 71 1 = 71"
  by (simp add: roundToDecimal_one Math_round_def)

text \<open>
  Claim C2, amended. For every grouped mapping with no empty bucket (as the grouper
  supplies it), \<open>averageDailyMeasurements\<close> returns exactly one record per entry, in the
  order of the entries and with distinct dates when the keys are distinct, and the record of
  an entry is its \<open>daily_average\<close>: the date of the entry, the time of its first record, the
  import tag; every decimal field the mean rounded to one decimal as binary64 arithmetic
  computes both (the values added from the left and divided by their number, the mean
  multiplied by ten, rounded to the nearest integer with a tie towards \<open>+\<infinity>\<close>, and divided by
  ten, each operation rounded to binary64), which is rounding half away from zero whenever
  the mean is not negative, and the binary64 value of the tenth nearest to the arithmetic
  mean whenever the computation of the mean is exact; and the three integer fields the
  binary64 mean rounded to the nearest integer. Two records dated 2024-01-01 with weights
  70 and 72 are grouped and averaged to one record dated 2024-01-01 with weight 71.
\<close>

theorem averageDailyMeasurements_daily_average:
  assumes "\<forall>entry \<in> set g. snd entry \<noteq> []"
  shows "(\<exists>out. averageDailyMeasurements g = Inr out \<and>
              list_all2 daily_average (object_entries g) out \<and>
              map date out = map fst (object_entries g) \<and>
              (distinct (map fst g) \<longrightarrow> distinct (map date out))) \<and>
         (\<forall>r1 r2. date r1 = ''2024-01-01'' \<and> date r2 = ''2024-01-01'' \<and>
                  weight r1 = 70 \<and> weight r2 = 72 \<longrightarrow>
            (\<exists>g2 dups m. groupByDate [r1, r2] = Inr (g2, dups) \<and>
               averageDailyMeasurements g2 = Inr [m] \<and>
               date m = ''2024-01-01'' \<and> weight m = 71))"
proof (rule conjI)
  from averageDailyMeasurements_total [OF assms] obtain out where
    out: "averageDailyMeasurements g = Inr out" "list_all2 daily_average (object_entries g) out"
      "map date out = map fst (object_entries g)"
    by (elim exE conjE) (rule that, assumption+)
  have "distinct (map fst g) \<longrightarrow> distinct (map date out)"
    by (simp add: out(3) distinct_keys_object_entries)
  with out show "\<exists>out. averageDailyMeasurements g = Inr out \<and>
              list_all2 daily_average (object_entries g) out \<and>
              map date out = map fst (object_entries g) \<and>
              (distinct (map fst g) \<longrightarrow> distinct (map date out))"
    by simp
next
  show "\<forall>r1 r2. date r1 = ''2024-01-01'' \<and> date r2 = ''2024-01-01'' \<and>
                  weight r1 = 70 \<and> weight r2 = 72 \<longrightarrow>
            (\<exists>g2 dups m. groupByDate [r1, r2] = Inr (g2, dups) \<and>
               averageDailyMeasurements g2 = Inr [m] \<and>
               date m = ''2024-01-01'' \<and> weight m = 71)"
  proof (intro allI impI)
    fix r1 r2 :: TransformedMeasurement
    assume a: "date r1 = ''2024-01-01'' \<and> date r2 = ''2024-01-01'' \<and> weight r1 = 70 \<and> weight r2 = 72"
    have k: "''2024-01-01'' \<notin> set object_prototype_keys"
      by (simp add: object_prototype_keys_def)
    let ?g = "[(''2024-01-01'', [r1, r2])]"
    from a k have grp: "groupByDate [r1, r2] = Inr (?g, find_duplicates ?g)"
      by (simp add: group_two_same_date)
    have oe: "object_entries ?g = ?g"
      by (simp add: object_entries_def array_index_def is_digit_def)
    from average_entry_fields [of "[r1, r2]" "''2024-01-01''"] obtain m where
      m: "average_entry (''2024-01-01'', [r1, r2]) = Inr m" "date m = ''2024-01-01''"
      and dec: "list_all (\<lambda>f. f m = roundToDecimal (binary64_mean (map f [r1, r2])) 1) decimal_fields"
      by auto
    from dec have "weight m = roundToDecimal (binary64_mean [weight r1, weight r2]) 1"
      by (simp add: decimal_fields_def)
    also have "\<dots> = 71"
      using a by (simp add: binary64_mean_70_72 roundToDecimal_71 [unfolded One_nat_def])
    finally have w: "weight m = 71" .
    have "averageDailyMeasurements ?g = Inr [m]"
      by (simp add: averageDailyMeasurements_def oe m)
    with grp m(2) w show "\<exists>g2 dups m. groupByDate [r1, r2] = Inr (g2, dups) \<and>
               averageDailyMeasurements g2 = Inr [m] \<and>
               date m = ''2024-01-01'' \<and> weight m = 71"
      by simp
  qed
qed

text \<open>The rounding on given numbers, from their exponents.\<close>

lemma binary64_eval:
  assumes "pow2 e \<le> \<bar>x\<bar>" "\<bar>x\<bar> < pow2 (e + 1)" "- 1022 \<le> e"
  shows "binary64 x = of_int (round_half_even (x / pow2 (e - 52))) * pow2 (e - 52)"
proof -
  have "0 < \<bar>x\<bar>" using less_le_trans [OF pow2_pos assms(1)] .
  then have x: "x \<noteq> 0" by simp
  have "exponent x = e" using assms(1,2) by (rule exponent_unique)
  then have "ulp x = pow2 (e - 52)" using assms(3) by (simp add: ulp_def ulp_exponent_def)
  with x show ?thesis by (simp add: binary64_ulp)
qed

lemma roundToDecimal_mean_single:
  assumes "binary64 a = a" "binary64 (a * 10) = t" "Math_round t = n"
  shows "roundToDecimal (binary64_mean [a]) 1 = binary64 (n / 10)"
  using assms by (simp add: roundToDecimal_one binary64_mean_def binary64_sum_def)

lemma roundToDecimal_mean_pair:
  assumes "binary64 a = a" "binary64 (a + b) = s" "binary64 (s / 2) = m" "binary64 (m * 10) = t"
    "Math_round t = n"
  shows "roundToDecimal (binary64_mean [a, b]) 1 = binary64 (n / 10)"
  using assms by (simp add: roundToDecimal_one binary64_mean_def binary64_sum_def)

lemma negative_tie_rounding:
  "roundToDecimal (binary64_mean [- 1 / 4]) 1 = binary64 (- 2 / 10)"
proof (rule roundToDecimal_mean_single)
  show "binary64 (- 1 / 4) = - 1 / 4"
    by (subst binary64_eval [where e = "- 2"]) (simp_all add: pow2_def round_half_even_def Let_def)
  show "binary64 (- 1 / 4 * 10) = - 5 / 2"
    by (subst binary64_eval [where e = 1]) (simp_all add: pow2_def round_half_even_def Let_def)
  show "Math_round (- 5 / 2) = - 2"
    by (simp add: Math_round_def)
qed

lemma binary64_32_3: "binary64 (323 / 10) = 2272910436938547 / 70368744177664"
  by (subst binary64_eval [where e = 5]) (simp_all add: pow2_def round_half_even_def Let_def)

lemma binary64_32_4: "binary64 (324 / 10) = 4559894622712627 / 140737488355328"
  by (subst binary64_eval [where e = 5]) (simp_all add: pow2_def round_half_even_def Let_def)

lemma close_pair_rounding:
  "roundToDecimal (binary64_mean [binary64 (323 / 10), binary64 (324 / 10)]) 1 = binary64 (323 / 10)"
proof (rule roundToDecimal_mean_pair)
  show "binary64 (binary64 (323 / 10)) = binary64 (323 / 10)" by simp
  show "binary64 (binary64 (323 / 10) + binary64 (324 / 10)) = 1138214437073715 / 17592186044416"
    unfolding binary64_32_3 binary64_32_4
    by (subst binary64_eval [where e = 6]) (simp_all add: pow2_def round_half_even_def Let_def)
  show "binary64 (1138214437073715 / 17592186044416 / 2) = 1138214437073715 / 35184372088832"
    by (subst binary64_eval [where e = 5]) (simp_all add: pow2_def round_half_even_def Let_def)
  show "binary64 (1138214437073715 / 35184372088832 * 10) = 5691072185368575 / 17592186044416"
    by (subst binary64_eval [where e = 8]) (simp_all add: pow2_def round_half_even_def Let_def)
  show "Math_round (5691072185368575 / 17592186044416) = 323"
    by (simp add: Math_round_def)
qed

lemma average_single_entry:
  assumes "rs \<noteq> []"
  shows "\<exists>m. averageDailyMeasurements [(''2024-01-01'', rs)] = Inr [m] \<and>
             list_all (\<lambda>f. f m = roundToDecimal (binary64_mean (map f rs)) 1) decimal_fields"
proof -
  from average_entry_fields [OF assms, of "''2024-01-01''"] obtain m where
    "average_entry (''2024-01-01'', rs) = Inr m"
    "list_all (\<lambda>f. f m = roundToDecimal (binary64_mean (map f rs)) 1) decimal_fields"
    by (elim exE conjE) (rule that, assumption+)
  then show ?thesis
    by (simp add: averageDailyMeasurements_def object_entries_def array_index_def is_digit_def)
qed

text \<open>
  As stated, C2 fails in two ways. On a negative tie: a skeletal-muscle percentage of
  \<open>-0.25\<close> (a value the validator only warns about) averages to \<open>-0.2\<close>, while rounding
  half away from zero gives \<open>-0.3\<close>. And by the rounding of binary64: the weights \<open>32.3\<close>
  and \<open>32.4\<close>, whose arithmetic mean \<open>32.35\<close> rounds to \<open>32.4\<close>, average to \<open>32.3\<close>,
  because the binary64 mean of the two binary64 values lies below \<open>32.35\<close>.
\<close>

theorem averageDailyMeasurements_daily_average_counterexample:
  "(\<exists>m. averageDailyMeasurements [(''2024-01-01'', [neg_tie_record])] = Inr [m] \<and>
        skeletal_muscle_percentage m = binary64 (- 2 / 10)) \<and>
   mean (map skeletal_muscle_percentage [neg_tie_record]) = - 1 / 4 \<and>
   round_half_away_1dp (- 1 / 4) = - 3 / 10 \<and>
   binary64 (- 2 / 10) \<noteq> binary64 (- 3 / 10) \<and>
   (\<exists>m. averageDailyMeasurements [(''2024-01-01'', same_day_close)] = Inr [m] \<and>
        weight m = binary64 (323 / 10)) \<and>
   map weight same_day_close = [binary64 (323 / 10), binary64 (324 / 10)] \<and>
   round_half_away_1dp (mean [323 / 10, 324 / 10]) = 324 / 10 \<and>
   binary64 (323 / 10) \<noteq> binary64 (324 / 10)"
proof -
  from average_single_entry [of "[neg_tie_record]"] obtain m where
    "averageDailyMeasurements [(''2024-01-01'', [neg_tie_record])] = Inr [m]"
    "list_all (\<lambda>f. f m = roundToDecimal (binary64_mean (map f [neg_tie_record])) 1) decimal_fields"
    by auto
  then have a: "\<exists>m. averageDailyMeasurements [(''2024-01-01'', [neg_tie_record])] = Inr [m] \<and>
        skeletal_muscle_percentage m = binary64 (- 2 / 10)"
    using negative_tie_rounding by (simp add: decimal_fields_def neg_tie_record_def)
  have b: "mean (map skeletal_muscle_percentage [neg_tie_record]) = - 1 / 4"
    by (simp add: mean_def neg_tie_record_def)
  have c: "round_half_away_1dp (- 1 / 4) = - 3 / 10"
    by (simp add: round_half_away_1dp_def round_half_away_from_zero_def)
  have "binary64 (- 2 / 10) = - (3602879701896397 / 18014398509481984)"
    by (subst binary64_eval [where e = "- 3"]) (simp_all add: pow2_def round_half_even_def Let_def)
  moreover have "binary64 (- 3 / 10) = - (5404319552844595 / 18014398509481984)"
    by (subst binary64_eval [where e = "- 2"]) (simp_all add: pow2_def round_half_even_def Let_def)
  ultimately have d: "binary64 (- 2 / 10) \<noteq> binary64 (- 3 / 10)" by simp
  have w: "map weight same_day_close = [binary64 (323 / 10), binary64 (324 / 10)]"
    by (simp add: same_day_close_def double_measurement_def)
  from average_single_entry [of same_day_close] obtain m' where
    "averageDailyMeasurements [(''2024-01-01'', same_day_close)] = Inr [m']"
    "list_all (\<lambda>f. f m' = roundToDecimal (binary64_mean (map f same_day_close)) 1) decimal_fields"
    by (auto simp: same_day_close_def)
  then have e: "\<exists>m. averageDailyMeasurements [(''2024-01-01'', same_day_close)] = Inr [m] \<and>
        weight m = binary64 (323 / 10)"
    using close_pair_rounding by (simp add: decimal_fields_def w)
  have f: "round_half_away_1dp (mean [323 / 10, 324 / 10]) = 324 / 10"
    by (simp add: round_half_away_1dp_def round_half_away_from_zero_def mean_def)
  have g: "binary64 (323 / 10) \<noteq> binary64 (324 / 10)"
    unfolding binary64_32_3 binary64_32_4 by simp
  from a b c d e w f g show ?thesis by (intro conjI)
qed

lemma exact_in_binary64_70_72: "exact_in_binary64 [70, 72]"
  by (simp add: exact_in_binary64_def is_double_def mean_def upt_rec)

theorem averageDailyMeasurements_daily_average_witness:
  "snd (''2024-01-01'', same_day_70_72) \<noteq> [] \<and>
   exact_in_binary64 (map weight same_day_70_72) \<and>
   (\<exists>m. averageDailyMeasurements [(''2024-01-01'', same_day_70_72)] = Inr [m] \<and>
        date m = ''2024-01-01'' \<and> weight m = 71 \<and> time m = ''7:57:06 a.m.'' \<and>
        (\<exists>t. nearest_tenth_ties_up 71 t \<and> weight m = binary64 t)) \<and>
   (\<exists>g dups m. groupByDate same_day_70_72 = Inr (g, dups) \<and>
        averageDailyMeasurements g = Inr [m] \<and> date m = ''2024-01-01'' \<and> weight m = 71)"
proof -
  let ?g = "[(''2024-01-01'', same_day_70_72)]"
  have ne: "snd (''2024-01-01'', same_day_70_72) \<noteq> []" by (simp add: same_day_70_72_def)
  then have h: "\<forall>entry \<in> set ?g. snd entry \<noteq> []" by simp
  note T = averageDailyMeasurements_daily_average [OF h]
  from T obtain out where
    out: "averageDailyMeasurements ?g = Inr out" "list_all2 daily_average (object_entries ?g) out"
    by (elim exE conjE) (rule that, assumption+)
  have oe: "object_entries ?g = ?g"
    by (simp add: object_entries_def array_index_def is_digit_def)
  from out(2) obtain m where m: "out = [m]" "daily_average (''2024-01-01'', same_day_70_72) m"
    unfolding oe by (auto simp: list_all2_Cons1)
  have ws: "map weight same_day_70_72 = [70, 72]"
    by (simp add: same_day_70_72_def double_measurement_def)
  have ex: "exact_in_binary64 (map weight same_day_70_72)"
    unfolding ws by (rule exact_in_binary64_70_72)
  have mean: "mean [70, 72] = 71" by (simp add: mean_def)
  from m(2) have "date m = ''2024-01-01''" "time m = ''7:57:06 a.m.''"
    and "0 \<le> binary64_mean (map weight same_day_70_72) \<longrightarrow>
           weight m = binary64 (round_half_away_from_zero
                        (binary64 (binary64_mean (map weight same_day_70_72) * 10)) / 10)"
    and "exact_in_binary64 (map weight same_day_70_72) \<longrightarrow>
           (\<exists>t. nearest_tenth_ties_up (mean (map weight same_day_70_72)) t \<and> weight m = binary64 t)"
    by (simp_all add: daily_average_def decimal_fields_def same_day_70_72_def double_measurement_def)
  then have a: "date m = ''2024-01-01''" "time m = ''7:57:06 a.m.''" "weight m = 71"
    "\<exists>t. nearest_tenth_ties_up 71 t \<and> weight m = binary64 t"
    using ex by (simp_all add: ws mean binary64_mean_70_72 round_half_away_from_zero_def)
  have p: "date (double_measurement ''2024-01-01'' 70) = ''2024-01-01'' \<and>
      date (double_measurement ''2024-01-01'' 72) = ''2024-01-01'' \<and>
      weight (double_measurement ''2024-01-01'' 70) = 70 \<and>
      weight (double_measurement ''2024-01-01'' 72) = 72"
    by (simp add: double_measurement_def)
  from T [THEN conjunct2, THEN spec, THEN spec, THEN mp, OF p]
  have b: "\<exists>g dups m. groupByDate same_day_70_72 = Inr (g, dups) \<and>
        averageDailyMeasurements g = Inr [m] \<and> date m = ''2024-01-01'' \<and> weight m = 71"
    by (simp add: same_day_70_72_def)
  from ne ex out(1) m(1) a b show ?thesis by simp
qed

subsection \<open>Averaging what is already averaged\<close>

lemma tenth_precision_round_trip:
  assumes "tenth_precision x"
  shows "roundToDecimal x 1 = x" and "is_double x"
proof -
  define k where "k = \<lfloor>x * 10 + 1 / 2\<rfloor>"
  from assms have x: "x = binary64 (of_int k / 10)" and b: "\<bar>x\<bar> \<le> 10 ^ 14"
    by (simp_all add: tenth_precision_def k_def)
  have "of_int k \<le> x * 10 + 1 / 2" "x * 10 + 1 / 2 < of_int k + 1"
    unfolding k_def by linarith+
  with b have "\<bar>of_int k / 10 :: real\<bar> < 2 ^ 49" by simp
  from tenth_round_trip [OF this] have "binary64 (x * 10) = of_int k" using x by simp
  then have "roundToDecimal x 1 = binary64 (of_int k / 10)"
    by (simp add: roundToDecimal_one Math_round_def)
  with x show "roundToDecimal x 1 = x" by simp
  from x show "is_double x" by (metis is_double_binary64)
qed

lemma integer_precision_fixed:
  assumes "integer_precision x"
  shows "Math_round x = x" and "is_double x"
proof -
  from assms obtain k :: int where k: "x = of_int k" and b: "\<bar>x\<bar> \<le> 2 ^ 53"
    unfolding integer_precision_def is_integer_def by metis
  have "\<lfloor>of_int k + (1 / 2 :: real)\<rfloor> = k" by linarith
  then show "Math_round x = x" by (simp add: Math_round_def k)
  from b have "\<bar>k\<bar> \<le> 2 ^ 53" unfolding k by (metis of_int_abs of_int_le_iff of_int_numeral of_int_power)
  then show "is_double x" unfolding k by (rule is_double_of_int)
qed

lemma binary64_mean_single: "is_double x \<Longrightarrow> binary64_mean [x] = x"
  by (simp add: binary64_mean_def binary64_sum_def is_double_def)

lemma average_entry_single:
  assumes "at_rounding_precision r"
  shows "average_entry (date r, [r]) = Inr r"
proof -
  from average_entry_fields [of "[r]" "date r"] obtain m where
    m: "average_entry (date r, [r]) = Inr m" "date m = date r" "time m = time r"
       "source m = renpho_import"
    and dec: "list_all (\<lambda>f. f m = roundToDecimal (binary64_mean (map f [r])) 1) decimal_fields"
    and int: "list_all (\<lambda>f. f m = Math_round (binary64_mean (map f [r]))) integer_fields"
    by auto
  have dec': "list_all (\<lambda>f. f m = f r) decimal_fields"
    using dec assms
    by (simp add: at_rounding_precision_def decimal_fields_def binary64_mean_single
        tenth_precision_round_trip [unfolded One_nat_def])
  have int': "list_all (\<lambda>f. f m = f r) integer_fields"
    using int assms
    by (simp add: at_rounding_precision_def integer_fields_def binary64_mean_single
        integer_precision_fixed)
  have s: "source r = renpho_import" by (cases "source r") simp
  have "m = r"
    using m(2-4) dec' int' s by (simp add: decimal_fields_def integer_fields_def)
  with m(1) show ?thesis by simp
qed

text \<open>
  What the averaging returns is at the rounding precision, within the magnitudes of
  \<open>at_rounding_precision\<close>.
\<close>

lemma exponent_ge:
  assumes "pow2 e \<le> \<bar>x\<bar>"
  shows "e \<le> exponent x"
proof -
  have "0 < \<bar>x\<bar>" using less_le_trans [OF pow2_pos assms] .
  then have "x \<noteq> 0" by simp
  from exponent_bounds(2) [OF this] assms have "pow2 e < pow2 (exponent x + 1)" by linarith
  then show ?thesis by simp
qed

lemma roundToDecimal_tenth_precision:
  assumes "\<bar>roundToDecimal x 1\<bar> \<le> 10 ^ 14"
  shows "tenth_precision (roundToDecimal x 1)"
proof -
  define j where "j = \<lfloor>binary64 (x * 10) + 1 / 2\<rfloor>"
  define v where "v = roundToDecimal x 1"
  have v: "v = binary64 (of_int j / 10)"
    by (simp add: v_def j_def roundToDecimal_one Math_round_def)
  have "\<bar>of_int j / 10 :: real\<bar> < 2 ^ 49"
  proof (cases "j = 0")
    case True
    then show ?thesis by simp
  next
    case False
    then have "1 \<le> \<bar>j\<bar>" by simp
    then have "(1::real) \<le> of_int \<bar>j\<bar>" by (simp only: of_int_1_le_iff)
    then have "pow2 (- 4) \<le> \<bar>of_int j / 10 :: real\<bar>" by (simp add: pow2_numerals)
    then have "- 4 \<le> exponent (of_int j / 10)" by (rule exponent_ge)
    then have "- 1022 \<le> exponent (of_int j / 10)" by simp
    moreover have "of_int j / 10 \<noteq> (0::real)" using False by simp
    ultimately have "\<bar>of_int j / 10 :: real\<bar> < 2 * \<bar>v\<bar>"
      unfolding v by (intro binary64_lower)
    with assms show ?thesis unfolding v_def by simp
  qed
  from tenth_round_trip [OF this] have "\<bar>v * 10 - of_int j\<bar> \<le> 1 / 4" by (simp add: v)
  then have "\<lfloor>v * 10 + 1 / 2\<rfloor> = j" by linarith
  with v assms show ?thesis by (simp add: tenth_precision_def v_def)
qed

lemma Math_round_integer_precision:
  "\<bar>Math_round x\<bar> \<le> 2 ^ 53 \<Longrightarrow> integer_precision (Math_round x)"
  by (simp add: integer_precision_def Math_round_def)

lemma average_entry_at_rounding_precision:
  assumes "average_entry (d, rs) = Inr m"
    and "list_all (\<lambda>f. \<bar>f m\<bar> \<le> 10 ^ 14) decimal_fields"
    and "list_all (\<lambda>f. \<bar>f m\<bar> \<le> 2 ^ 53) integer_fields"
  shows "at_rounding_precision m"
proof -
  from assms(1) have "rs \<noteq> []" by (auto simp: average_entry_def)
  from average_entry_fields [OF this, of d] assms(1) have
    dec: "list_all (\<lambda>f. f m = roundToDecimal (binary64_mean (map f rs)) 1) decimal_fields"
    and int: "list_all (\<lambda>f. f m = Math_round (binary64_mean (map f rs))) integer_fields"
    by auto
  have "list_all (\<lambda>f. tenth_precision (f m)) decimal_fields"
    using dec assms(2) unfolding list_all_iff
    by (metis roundToDecimal_tenth_precision)
  moreover have "list_all (\<lambda>f. integer_precision (f m)) integer_fields"
    using int assms(3) unfolding list_all_iff
    by (metis Math_round_integer_precision)
  ultimately show ?thesis by (simp add: at_rounding_precision_def)
qed

text \<open>
  Beyond those magnitudes binary64 has no tenths, and rounding to one decimal moves a
  binary64 value that is nearest to a decimal numeral with one decimal place.
\<close>

lemma roundToDecimal_beyond_tenths:
  "binary64 (9688779996649111 / 10) = 7751023997319289 / 8 \<and>
   binary64 (of_int \<lfloor>7751023997319289 / 8 * 10 + 1 / (2::real)\<rfloor> / 10) = 7751023997319289 / 8 \<and>
   roundToDecimal (7751023997319289 / 8) 1 = 3875511998659645 / 4"
proof (intro conjI)
  show a: "binary64 (9688779996649111 / 10) = 7751023997319289 / 8"
    by (subst binary64_eval [where e = 49]) (simp_all add: pow2_def round_half_even_def Let_def)
  show "binary64 (of_int \<lfloor>7751023997319289 / 8 * 10 + 1 / (2::real)\<rfloor> / 10) = 7751023997319289 / 8"
    using a by simp
  have "binary64 (7751023997319289 / 8 * 10) = 9688779996649112"
    by (subst binary64_eval [where e = 53]) (simp_all add: pow2_def round_half_even_def Let_def)
  moreover have "binary64 (9688779996649112 / 10) = 3875511998659645 / 4"
    by (subst binary64_eval [where e = 49]) (simp_all add: pow2_def round_half_even_def Let_def)
  ultimately show "roundToDecimal (7751023997319289 / 8) 1 = 3875511998659645 / 4"
    by (simp add: roundToDecimal_one Math_round_def)
qed

lemma date_bucket_single:
  "distinct (map date data) \<Longrightarrow> r \<in> set data \<Longrightarrow> date_bucket data (date r) = [r]"
  unfolding date_bucket_def
  by (induction data) (auto simp: filter_empty_conv image_iff)

lemma map_throw_Inr_map:
  "\<forall>x \<in> set xs. f x = Inr (h x) \<Longrightarrow> map_throw f xs = Inr (map h xs)"
  by (induction xs) simp_all

text \<open>
  Claim C5. For every list of canonical measurements (dates as for C4) in which every
  date occurs exactly once and the numeric fields are at the precision the averaging rounds
  to (\<open>at_rounding_precision\<close>: binary64 values of decimal numerals with one decimal place,
  and integers), grouping by date and then averaging returns the same records: the same
  set, and as many.
\<close>

theorem regroup_average_unchanged:
  assumes "\<forall>r \<in> set data. date r \<notin> set object_prototype_keys"
    and "distinct (map date data)"
    and "\<forall>r \<in> set data. at_rounding_precision r"
  shows "\<exists>g dups out. groupByDate data = Inr (g, dups) \<and> averageDailyMeasurements g = Inr out \<and>
           set out = set data \<and> length out = length data"
proof -
  from group_loop_total [OF assms(1)] obtain g where gl: "group_loop [] data = Inr g" by blast
  note facts = group_loop_empty [OF gl]
  define dups where "dups = find_duplicates g"
  have res: "groupByDate data = Inr (g, dups)"
    by (simp add: groupByDate_def gl dups_def)
  have dist: "distinct (map fst g)" by (rule facts(1))
  have keys: "fst ` set g = date ` set data" by (rule facts(2))
  have buckets: "\<forall>(d, rs) \<in> set g. rs \<noteq> [] \<and> rs = date_bucket data d"
    using facts(3) by auto
  have entry: "\<exists>r \<in> set data. entry = (date r, [r])" if "entry \<in> set g" for entry
  proof -
    obtain d rs where e: "entry = (d, rs)" by (cases entry)
    with that keys obtain r where r: "r \<in> set data" "date r = d" by force
    from that e buckets have "rs = date_bucket data d" by auto
    with r date_bucket_single [OF assms(2) r(1)] e show ?thesis by auto
  qed
  have avg: "\<forall>entry \<in> set (object_entries g). average_entry entry = Inr (hd (snd entry))"
  proof
    fix entry assume "entry \<in> set (object_entries g)"
    then have "entry \<in> set g" by simp
    from entry [OF this] obtain r where r: "r \<in> set data" "entry = (date r, [r])" by blast
    with assms(3) show "average_entry entry = Inr (hd (snd entry))"
      by (simp add: average_entry_single)
  qed
  define out where "out = map (\<lambda>entry. hd (snd entry)) (object_entries g)"
  have a: "averageDailyMeasurements g = Inr out"
    unfolding averageDailyMeasurements_def out_def by (rule map_throw_Inr_map [OF avg])
  have "set out = (\<lambda>entry. hd (snd entry)) ` set g" by (simp add: out_def)
  also have "\<dots> = set data"
  proof (intro set_eqI iffI)
    fix r assume "r \<in> (\<lambda>entry. hd (snd entry)) ` set g"
    then obtain entry where "entry \<in> set g" "r = hd (snd entry)" by blast
    with entry [of entry] show "r \<in> set data" by auto
  next
    fix r assume r: "r \<in> set data"
    with keys obtain rs where in_g: "(date r, rs) \<in> set g" by force
    with buckets have "rs = date_bucket data (date r)" by auto
    with date_bucket_single [OF assms(2) r] in_g have "(date r, [r]) \<in> set g" by simp
    then show "r \<in> (\<lambda>entry. hd (snd entry)) ` set g" by force
  qed
  finally have s: "set out = set data" .
  have "length out = length (map fst g)" by (simp add: out_def)
  also have "\<dots> = card (fst ` set g)" using distinct_card [OF dist] by simp
  also have "\<dots> = card (set (map date data))" by (simp add: keys)
  also have "\<dots> = length data" using distinct_card [OF assms(2)] by simp
  finally have l: "length out = length data" .
  from res a s l show ?thesis by blast
qed

lemma binary64_upper:
  assumes "x \<noteq> 0" "- 1022 \<le> exponent x"
  shows "\<bar>binary64 x\<bar> \<le> 2 * \<bar>x\<bar>"
proof -
  from binary64_form [OF assms(1)] obtain N where
    N: "\<bar>N\<bar> \<le> 2 ^ 53" "binary64 x = of_int N * pow2 (ulp_exponent x)" by blast
  have u: "ulp_exponent x = exponent x - 52" using assms(2) by (simp add: ulp_exponent_def)
  from N(1) have "(of_int \<bar>N\<bar> :: real) \<le> of_int (2 ^ 53)" by (simp only: of_int_le_iff)
  then have "\<bar>binary64 x\<bar> \<le> 2 ^ 53 * pow2 (exponent x - 52)"
    unfolding N(2) u by (simp add: abs_mult)
  also have "\<dots> = 2 * pow2 (exponent x)"
    using pow2_add [of 52 "exponent x - 52"] by (simp add: pow2_numeral_53)
  also have "\<dots> \<le> 2 * \<bar>x\<bar>" using exponent_bounds(1) [OF assms(1)] by simp
  finally show ?thesis .
qed

lemma tenth_precision_tenth:
  fixes k :: int
  assumes "\<bar>of_int k / 10 :: real\<bar> \<le> 10 ^ 13"
  shows "tenth_precision (binary64 (of_int k / 10))"
proof (cases "k = 0")
  case True
  then show ?thesis by (simp add: tenth_precision_def)
next
  case False
  define v where "v = binary64 (of_int k / 10)"
  from False have "1 \<le> \<bar>k\<bar>" by simp
  then have "(1::real) \<le> of_int \<bar>k\<bar>" by (simp only: of_int_1_le_iff)
  then have "pow2 (- 4) \<le> \<bar>of_int k / 10 :: real\<bar>" by (simp add: pow2_numerals)
  then have "- 4 \<le> exponent (of_int k / 10)" by (rule exponent_ge)
  then have "- 1022 \<le> exponent (of_int k / 10)" by simp
  moreover have "of_int k / 10 \<noteq> (0::real)" using False by simp
  ultimately have "\<bar>v\<bar> \<le> 2 * \<bar>of_int k / 10\<bar>" unfolding v_def by (intro binary64_upper)
  with assms have b: "\<bar>v\<bar> \<le> 10 ^ 14" by simp
  from assms have "\<bar>of_int k / 10 :: real\<bar> < 2 ^ 49" by simp
  from tenth_round_trip [OF this] have "\<bar>v * 10 - of_int k\<bar> \<le> 1 / 4" by (simp add: v_def)
  then have "\<lfloor>v * 10 + 1 / 2\<rfloor> = k" by linarith
  with b show ?thesis by (simp add: tenth_precision_def v_def)
qed

lemma tenth_precision_decimal:
  assumes "is_integer (x * 10)" "\<bar>x\<bar> \<le> 10 ^ 13"
  shows "tenth_precision (binary64 x)"
proof -
  from assms(1) obtain k :: int where "x * 10 = of_int k" unfolding is_integer_def by metis
  then have x: "x = of_int k / 10" by simp
  from tenth_precision_tenth [of k] assms(2) show ?thesis unfolding x by simp
qed

lemma integer_precision_integer:
  assumes "is_integer x" "\<bar>x\<bar> \<le> 2 ^ 53"
  shows "integer_precision (binary64 x)"
proof -
  from assms have "integer_precision x" by (simp add: integer_precision_def)
  from integer_precision_fixed(2) [OF this] this show ?thesis by (simp add: is_double_def)
qed

lemma at_rounding_precision_70: "at_rounding_precision (double_measurement d 70)"
  unfolding at_rounding_precision_def decimal_fields_def integer_fields_def
    double_measurement_def list.pred_inject TransformedMeasurement.select_convs
  by (intro conjI tenth_precision_decimal integer_precision_integer TrueI)
     (simp_all add: is_integer_def)

lemma at_rounding_precision_70_4: "at_rounding_precision (double_measurement d (704 / 10))"
  unfolding at_rounding_precision_def decimal_fields_def integer_fields_def
    double_measurement_def list.pred_inject TransformedMeasurement.select_convs
  by (intro conjI tenth_precision_decimal integer_precision_integer TrueI)
     (simp_all add: is_integer_def)

theorem regroup_average_unchanged_witness:
  "''2024-01-01'' \<notin> set object_prototype_keys \<and> ''2024-01-02'' \<notin> set object_prototype_keys \<and>
   distinct (map date two_days_double) \<and>
   at_rounding_precision (double_measurement ''2024-01-01'' 70) \<and>
   at_rounding_precision (double_measurement ''2024-01-02'' (704 / 10)) \<and>
   (\<exists>g dups out. groupByDate two_days_double = Inr (g, dups) \<and>
      averageDailyMeasurements g = Inr out \<and>
      set out = {double_measurement ''2024-01-01'' 70, double_measurement ''2024-01-02'' (704 / 10)})"
proof -
  have k: "''2024-01-01'' \<notin> set object_prototype_keys" "''2024-01-02'' \<notin> set object_prototype_keys"
    by (simp_all add: object_prototype_keys_def)
  have d: "distinct (map date two_days_double)"
    by (simp add: two_days_double_def double_measurement_def)
  note p = at_rounding_precision_70 [of "''2024-01-01''"]
    at_rounding_precision_70_4 [of "''2024-01-02''"]
  have t: "two_days_double =
      [double_measurement ''2024-01-01'' 70, double_measurement ''2024-01-02'' (704 / 10)]"
    unfolding two_days_double_def by (rule refl)
  have h1: "\<forall>r \<in> set two_days_double. date r \<notin> set object_prototype_keys"
    using k unfolding t by (simp add: double_measurement_def)
  have h3: "\<forall>r \<in> set two_days_double. at_rounding_precision r"
    using p unfolding t by simp
  from regroup_average_unchanged [OF h1 d h3] obtain g dups out where
    "groupByDate two_days_double = Inr (g, dups)" "averageDailyMeasurements g = Inr out"
    "set out = set two_days_double"
    by (elim exE conjE) (rule that, assumption+)
  then have "\<exists>g dups out. groupByDate two_days_double = Inr (g, dups) \<and>
      averageDailyMeasurements g = Inr out \<and>
      set out = {double_measurement ''2024-01-01'' 70, double_measurement ''2024-01-02'' (704 / 10)}"
    unfolding t by auto
  with k d p show ?thesis by simp
qed

subsection \<open>Importing and previewing\<close>

text \<open>
  Claim C1. For every parse result whose validation is not valid and for every strategy,
  \<open>processImport\<close> rejects with a \<open>RenphoImportError\<close> of code \<open>VALIDATION_ERROR\<close> that
  carries the validation errors; it has no effect before that (no averaging, no batch
  call, no timer), and it produces no import result.
\<close>

theorem processImport_validation_blocked:
  assumes "\<not> isValid (validation parseResult)"
  shows "\<exists>e. processImport parseResult strat = ([], Inl e) \<and> code e = VALIDATION_ERROR \<and>
             details e = Validation_errors (errors (validation parseResult)) \<and>
             Average_daily \<notin> set (fst (processImport parseResult strat)) \<and>
             (\<forall>batch. Create_batch batch \<notin> set (fst (processImport parseResult strat))) \<and>
             (\<forall>r. snd (processImport parseResult strat) \<noteq> Inr r)"
  using assms by (simp add: processImport_def)

theorem processImport_validation_blocked_witness:
  "\<not> isValid (validation blocked_result) \<and>
   fst (processImport blocked_result average) = [] \<and>
   fst (processImport blocked_result keep_all) = [] \<and>
   code (projl (snd (processImport blocked_result average))) = VALIDATION_ERROR \<and>
   code (projl (snd (processImport blocked_result keep_all))) = VALIDATION_ERROR"
proof -
  have h: "\<not> isValid (validation blocked_result)" by (simp add: blocked_result_def)
  from processImport_validation_blocked [OF h, of average]
       processImport_validation_blocked [OF h, of keep_all] h
  show ?thesis by auto
qed

text \<open>
  Claim C9, amended. For every parse result whose validation is valid and, under
  \<open>average\<close>, whose grouped mapping has no empty bucket, as is the case for every parse
  result of \<open>parseFile\<close> (\<open>parseFile_rows_result\<close>), and for every strategy,
  \<open>processImport\<close> resolves to an import result with the chosen strategy, \<open>failed = 0\<close>,
  no errors, and \<open>successful\<close> the length of the processed data, which is the daily
  averages for \<open>average\<close> and the transformed data otherwise; no batch call is made.
\<close>

theorem processImport_valid_resolves:
  assumes "isValid (validation parseResult)"
    and "strat = average \<longrightarrow> (\<forall>entry \<in> set (grouped parseResult). snd entry \<noteq> [])"
  shows "\<exists>effs r. processImport parseResult strat = (effs, Inr r) \<and>
           strategy r = strat \<and> failed r = 0 \<and> import_errors r = [] \<and>
           successful r = length (processedData r) \<and>
           (\<forall>batch. Create_batch batch \<notin> set effs) \<and>
           (if strat = average
            then averageDailyMeasurements (grouped parseResult) = Inr (processedData r)
            else processedData r = transformedData parseResult)"
proof (cases "strat = average")
  case True
  with assms(2) have "\<forall>entry \<in> set (grouped parseResult). snd entry \<noteq> []" by simp
  then have "\<forall>entry \<in> set (object_entries (grouped parseResult)).
      \<exists>m. average_entry entry = Inr m \<and> daily_average entry m"
    using average_entry_daily_average by simp
  from map_throw_list_all2 [OF this] obtain out where
    "averageDailyMeasurements (grouped parseResult) = Inr out"
    unfolding averageDailyMeasurements_def by blast
  with assms(1) True show ?thesis by (simp add: processImport_def)
next
  case False
  with assms(1) show ?thesis by (simp add: processImport_def)
qed

text \<open>
  As stated, C9 fails on a parse result that is valid and has an empty bucket, which the
  type \<^verbatim>\<open>ParseResult\<close> admits: under \<open>average\<close> the averaging throws on reading the time
  of the first record, and the promise rejects with \<open>IMPORT_ERROR\<close>.
\<close>

theorem processImport_valid_resolves_counterexample:
  "isValid (validation empty_bucket_result) \<and>
   processImport empty_bucket_result average =
     ([Average_daily],
      Inl \<lparr> message = ''Import failed: Cannot read properties of undefined (reading 'time')'',
            code = IMPORT_ERROR,
            details = Caught ''Cannot read properties of undefined (reading 'time')'' \<rparr>)"
  by (simp add: empty_bucket_result_def valid_outcome_def processImport_def
      averageDailyMeasurements_def object_entries_def array_index_def is_digit_def
      average_entry_def)

theorem processImport_valid_resolves_witness:
  "isValid (validation two_days_result) \<and>
   snd (''2024-01-01'', [double_measurement ''2024-01-01'' 70]) \<noteq> [] \<and>
   snd (''2024-01-02'', [double_measurement ''2024-01-02'' 70.4]) \<noteq> [] \<and>
   (\<exists>effs r. processImport two_days_result average = (effs, Inr r) \<and> strategy r = average \<and>
      failed r = 0 \<and> import_errors r = [] \<and> successful r = length (processedData r))"
proof -
  have v: "isValid (validation two_days_result)"
    by (simp add: two_days_result_def valid_outcome_def)
  have "average = average \<longrightarrow> (\<forall>entry \<in> set (grouped two_days_result). snd entry \<noteq> [])"
    by (simp add: two_days_result_def)
  from processImport_valid_resolves [OF v this] obtain effs r where
    "processImport two_days_result average = (effs, Inr r)" "strategy r = average" "failed r = 0"
    "import_errors r = []" "successful r = length (processedData r)"
    by (elim exE conjE) (rule that, assumption+)
  with v show ?thesis by simp
qed


lemma mset_insert_by: "mset (insert_by cmp x ys) = add_mset x (mset ys)"
  by (induction ys) simp_all

lemma mset_js_sort: "mset (js_sort cmp xs) = mset xs"
  unfolding js_sort_def by (induction xs) (simp_all add: mset_insert_by)

lemma set_insert_by: "set (insert_by cmp x ys) = insert x (set ys)"
  by (induction ys) auto

lemma insert_by_sorted:
  assumes "\<forall>a \<in> set (x # ys). \<forall>b \<in> set (x # ys). (cmp a b \<le> 0) = (k b \<le> k a)"
    and "sorted_wrt (\<lambda>a b. k b \<le> k a) ys"
  shows "sorted_wrt (\<lambda>a b. (k b :: int) \<le> k a) (insert_by cmp x ys)"
  using assms
proof (induction ys)
  case Nil
  then show ?case by simp
next
  case (Cons y ys)
  show ?case
  proof (cases "cmp x y \<le> 0")
    case True
    with Cons.prems have "k y \<le> k x" by simp
    with Cons.prems True show ?thesis by (auto intro: order_trans)
  next
    case False
    with Cons.prems have "k x \<le> k y" by auto
    moreover have "sorted_wrt (\<lambda>a b. k b \<le> k a) (insert_by cmp x ys)"
      using Cons.prems by (intro Cons.IH) auto
    ultimately show ?thesis using Cons.prems False by (auto simp: set_insert_by)
  qed
qed

lemma js_sort_sorted:
  assumes "\<forall>a \<in> set xs. \<forall>b \<in> set xs. (cmp a b \<le> 0) = (k b \<le> k a)"
  shows "sorted_wrt (\<lambda>a b. (k b :: int) \<le> k a) (js_sort cmp xs)"
  using assms
proof (induction xs)
  case Nil
  then show ?case by (simp add: js_sort_def)
next
  case (Cons x xs)
  have s: "set (js_sort cmp xs) = set xs"
    using mset_js_sort [of cmp xs] by (metis set_mset_mset)
  have "sorted_wrt (\<lambda>a b. k b \<le> k a) (insert_by cmp x (js_sort cmp xs))"
    by (rule insert_by_sorted) (use Cons in \<open>auto simp: s\<close>)
  then show ?case by (simp add: js_sort_def)
qed

lemma date_compare_valid:
  assumes "Date_parse rt (date a) \<noteq> None" "Date_parse rt (date b) \<noteq> None"
  shows "(date_compare rt a b \<le> 0) = (date_time rt b \<le> date_time rt a)"
  using assms by (auto simp: date_compare_def date_time_def)

lemma js_sort_latest_first:
  assumes "\<forall>m \<in> set xs. Date_parse rt (date m) \<noteq> None"
  shows "latest_first rt (js_sort (date_compare rt) xs)"
proof -
  have "sorted_wrt (\<lambda>a b. date_time rt b \<le> date_time rt a) (js_sort (date_compare rt) xs)"
    by (rule js_sort_sorted) (use assms in \<open>simp add: date_compare_valid\<close>)
  moreover have "set (js_sort (date_compare rt) xs) = set xs"
    using mset_js_sort [of "date_compare rt" xs] by (metis set_mset_mset)
  ultimately show ?thesis
    unfolding latest_first_def using assms
    by (auto simp: no_later_def elim!: sorted_wrt_mono_rel [rotated])
qed

lemma js_slice0_take: "0 \<le> e \<Longrightarrow> js_slice0 e xs = take (nat e) xs"
  by (simp add: js_slice0_def Let_def min_def)

lemma js_slice0_prefix: "prefix (js_slice0 e xs) xs"
  by (simp add: js_slice0_def Let_def take_is_prefix)

lemma latest_first_prefix: "prefix ys xs \<Longrightarrow> latest_first rt xs \<Longrightarrow> latest_first rt ys"
  by (auto simp: prefix_def latest_first_def sorted_wrt_append)

lemma previewData_of_sorted:
  assumes "if strat = average then averageDailyMeasurements (grouped parseResult) = Inr src
           else src = transformedData parseResult"
  shows "\<exists>after. previewData rt parseResult strat limit =
                   Inr (js_slice0 limit (js_sort (date_compare rt) src), after) \<and>
                 previewData_default rt parseResult strat =
                   Inr (take 5 (js_sort (date_compare rt) src), after)"
  using assms
  by (cases "strat = average")
     (simp_all add: previewData_def previewData_default_def js_slice0_take Let_def)

text \<open>
  Claim C10, amended. For every parse result and strategy such that, under \<open>average\<close>,
  no bucket of the grouped mapping is empty, and for every limit, \<open>previewData\<close> returns
  the measurements at the head of a rearrangement of the daily averages under \<open>average\<close>
  and of the transformed data otherwise: for a limit that is not negative the first
  \<open>limit\<close> of them, so at most \<open>limit\<close> measurements (5 by default); and when the dates
  to be sorted parse (the keys of the grouped mapping under \<open>average\<close>, the dates of the
  transformed data otherwise), the rearrangement and the preview have the latest date
  first.
\<close>

theorem previewData_latest_first:
  assumes "strat = average \<longrightarrow> (\<forall>entry \<in> set (grouped parseResult). snd entry \<noteq> [])"
  shows "\<exists>src sorted_src out after.
           (if strat = average then averageDailyMeasurements (grouped parseResult) = Inr src
            else src = transformedData parseResult) \<and>
           mset sorted_src = mset src \<and>
           previewData rt parseResult strat limit = Inr (out, after) \<and>
           prefix out sorted_src \<and>
           (0 \<le> limit \<longrightarrow> out = take (nat limit) sorted_src \<and> int (length out) \<le> limit) \<and>
           ((strat = average \<longrightarrow>
               (\<forall>entry \<in> set (grouped parseResult). Date_parse rt (fst entry) \<noteq> None)) \<and>
            (strat \<noteq> average \<longrightarrow>
               (\<forall>m \<in> set (transformedData parseResult). Date_parse rt (date m) \<noteq> None)) \<longrightarrow>
            latest_first rt sorted_src \<and> latest_first rt out) \<and>
           previewData_default rt parseResult strat = Inr (take 5 sorted_src, after)"
proof -
  obtain src where src:
    "if strat = average then averageDailyMeasurements (grouped parseResult) = Inr src
     else src = transformedData parseResult"
    and dates: "strat = average \<longrightarrow> map date src = map fst (object_entries (grouped parseResult))"
  proof (cases "strat = average")
    case True
    with assms have "\<forall>entry \<in> set (grouped parseResult). snd entry \<noteq> []" by simp
    from averageDailyMeasurements_total [OF this] obtain src where
      "averageDailyMeasurements (grouped parseResult) = Inr src"
      "map date src = map fst (object_entries (grouped parseResult))"
      by (elim exE conjE) (rule that, assumption+)
    with True that [of src] show ?thesis by simp
  next
    case False
    with that [of "transformedData parseResult"] show ?thesis by simp
  qed
  let ?s = "js_sort (date_compare rt) src"
  let ?out = "js_slice0 limit ?s"
  from previewData_of_sorted [OF src, of rt limit] obtain after where
    p: "previewData rt parseResult strat limit = Inr (?out, after)"
    and q: "previewData_default rt parseResult strat = Inr (take 5 ?s, after)"
    by (elim exE conjE) (rule that, assumption+)
  have pre: "prefix ?out ?s" by (rule js_slice0_prefix)
  have lim: "0 \<le> limit \<longrightarrow> ?out = take (nat limit) ?s \<and> int (length ?out) \<le> limit"
    by (auto simp: js_slice0_take)
  have ord: "(strat = average \<longrightarrow>
               (\<forall>entry \<in> set (grouped parseResult). Date_parse rt (fst entry) \<noteq> None)) \<and>
            (strat \<noteq> average \<longrightarrow>
               (\<forall>m \<in> set (transformedData parseResult). Date_parse rt (date m) \<noteq> None)) \<longrightarrow>
            latest_first rt ?s \<and> latest_first rt ?out"
  proof
    assume h: "(strat = average \<longrightarrow>
               (\<forall>entry \<in> set (grouped parseResult). Date_parse rt (fst entry) \<noteq> None)) \<and>
            (strat \<noteq> average \<longrightarrow>
               (\<forall>m \<in> set (transformedData parseResult). Date_parse rt (date m) \<noteq> None))"
    have valid: "\<forall>m \<in> set src. Date_parse rt (date m) \<noteq> None"
    proof (cases "strat = average")
      case True
      with dates have "set (map date src) = fst ` set (grouped parseResult)" by simp
      then have "date ` set src = fst ` set (grouped parseResult)" by simp
      with h True show ?thesis by (metis imageE imageI)
    next
      case False
      with h src show ?thesis by simp
    qed
    from js_sort_latest_first [OF valid] have "latest_first rt ?s" .
    with latest_first_prefix [OF pre] show "latest_first rt ?s \<and> latest_first rt ?out" by simp
  qed
  from src mset_js_sort [of "date_compare rt" src] p pre lim ord q show ?thesis by blast
qed

lemma parseFile_no_such_date:
  "\<exists>pr. parseFile_rows rt no_such_date_rows = Inr pr \<and>
        transformedData pr =
          [sample_measurement ''2024-01-01'' 70, sample_measurement ''2024-13-15'' 70]"
proof -
  have t: "transformRenphoData no_such_date_rows =
      Inr [sample_measurement ''2024-01-01'' 70, sample_measurement ''2024-13-15'' 70]"
    by code_simp
  have ne: "no_such_date_rows \<noteq> []" by (simp add: no_such_date_rows_def)
  show ?thesis
  proof (cases "parseFile_rows rt no_such_date_rows")
    case (Inl e)
    from parseFile_rows_error [OF this] ne t show ?thesis by simp
  next
    case (Inr pr)
    from parseFile_rows_result(1) [OF this] t Inr show ?thesis by simp
  qed
qed

text \<open>
  As stated, C10 fails in two ways. A file with the rows dated \<open>01/01/24\<close> and \<open>15/13/24\<close>
  is parsed, the second date is transformed to \<open>2024-13-15\<close>, which does not parse as a
  date; the comparator is \<^verbatim>\<open>NaN\<close> on the two records, which \<^verbatim>\<open>sort\<close> reads as equal, and the
  preview keeps the order of the file: the record dated \<open>2024-01-01\<close> before the one dated
  \<open>2024-13-15\<close>. And on a parse result with an empty bucket, under \<open>average\<close>, the averaging
  throws and there is no preview.
\<close>

theorem previewData_latest_first_counterexample:
  "(\<exists>pr. parseFile_rows sample_runtime no_such_date_rows = Inr pr \<and>
         previewData_default sample_runtime pr keep_all =
           Inr ([sample_measurement ''2024-01-01'' 70, sample_measurement ''2024-13-15'' 70], pr)) \<and>
   Date_parse sample_runtime ''2024-13-15'' = None \<and>
   \<not> latest_first sample_runtime
       [sample_measurement ''2024-01-01'' 70, sample_measurement ''2024-13-15'' 70] \<and>
   string_less ''2024-01-01'' ''2024-13-15'' \<and>
   previewData_default sample_runtime empty_bucket_result average =
     Inl (TypeError ''Cannot read properties of undefined (reading 'time')'')"
proof -
  from parseFile_no_such_date [of sample_runtime] obtain pr where
    pr: "parseFile_rows sample_runtime no_such_date_rows = Inr pr"
      "transformedData pr =
         [sample_measurement ''2024-01-01'' 70, sample_measurement ''2024-13-15'' 70]"
    by (elim exE conjE) (rule that, assumption+)
  have s: "js_sort (date_compare sample_runtime)
             [sample_measurement ''2024-01-01'' 70, sample_measurement ''2024-13-15'' 70]
           = [sample_measurement ''2024-01-01'' 70, sample_measurement ''2024-13-15'' 70]"
    by (simp add: js_sort_def date_compare_def sample_runtime_def sample_measurement_def)
  have "pr\<lparr> transformedData :=
             [sample_measurement ''2024-01-01'' 70, sample_measurement ''2024-13-15'' 70] \<rparr> = pr"
    using pr(2) by (cases pr) simp
  then have "previewData_default sample_runtime pr keep_all =
      Inr ([sample_measurement ''2024-01-01'' 70, sample_measurement ''2024-13-15'' 70], pr)"
    by (simp add: previewData_default_def previewData_def pr(2) s js_slice0_def Let_def)
  with pr(1) have a: "\<exists>pr. parseFile_rows sample_runtime no_such_date_rows = Inr pr \<and>
         previewData_default sample_runtime pr keep_all =
           Inr ([sample_measurement ''2024-01-01'' 70, sample_measurement ''2024-13-15'' 70], pr)"
    by blast
  have b: "Date_parse sample_runtime ''2024-13-15'' = None"
    by (simp add: sample_runtime_def)
  have c: "\<not> latest_first sample_runtime
       [sample_measurement ''2024-01-01'' 70, sample_measurement ''2024-13-15'' 70]"
    by (simp add: latest_first_def no_later_def sample_runtime_def sample_measurement_def)
  have d: "string_less ''2024-01-01'' ''2024-13-15''" by simp
  have e: "previewData_default sample_runtime empty_bucket_result average =
     Inl (TypeError ''Cannot read properties of undefined (reading 'time')'')"
    by (simp add: previewData_default_def previewData_def empty_bucket_result_def
        averageDailyMeasurements_def object_entries_def array_index_def is_digit_def
        average_entry_def)
  from a b c d e show ?thesis by (intro conjI)
qed

theorem previewData_latest_first_witness:
  "(0::int) \<le> 1 \<and>
   snd (''2024-01-01'', [double_measurement ''2024-01-01'' 70]) \<noteq> [] \<and>
   snd (''2024-01-02'', [double_measurement ''2024-01-02'' 70.4]) \<noteq> [] \<and>
   Date_parse sample_runtime ''2024-01-01'' \<noteq> None \<and>
   Date_parse sample_runtime ''2024-01-02'' \<noteq> None \<and>
   (\<exists>out after. previewData sample_runtime two_days_result keep_all 1 = Inr (out, after) \<and>
      int (length out) \<le> 1 \<and> latest_first sample_runtime out \<and> set out \<subseteq> set two_days_double) \<and>
   (\<exists>out after. previewData sample_runtime two_days_result average 1 = Inr (out, after) \<and>
      int (length out) \<le> 1 \<and> latest_first sample_runtime out)"
proof -
  have p: "Date_parse sample_runtime ''2024-01-01'' \<noteq> None"
      "Date_parse sample_runtime ''2024-01-02'' \<noteq> None"
    by (simp_all add: sample_runtime_def)
  have ne: "snd (''2024-01-01'', [double_measurement ''2024-01-01'' 70]) \<noteq> []"
      "snd (''2024-01-02'', [double_measurement ''2024-01-02'' 70.4]) \<noteq> []"
    by simp_all
  have l: "(0::int) \<le> 1" by simp
  have h1: "keep_all = average \<longrightarrow> (\<forall>entry \<in> set (grouped two_days_result). snd entry \<noteq> [])"
    by simp
  have d1: "(keep_all = average \<longrightarrow>
               (\<forall>entry \<in> set (grouped two_days_result). Date_parse sample_runtime (fst entry) \<noteq> None)) \<and>
            (keep_all \<noteq> average \<longrightarrow>
               (\<forall>m \<in> set (transformedData two_days_result). Date_parse sample_runtime (date m) \<noteq> None))"
    using p by (simp add: two_days_result_def two_days_double_def double_measurement_def)
  from previewData_latest_first [OF h1, of sample_runtime 1] obtain src sorted_src out after where
    src: "if keep_all = average
          then averageDailyMeasurements (grouped two_days_result) = Inr src
          else src = transformedData two_days_result"
    and m: "mset sorted_src = mset src"
    and r: "previewData sample_runtime two_days_result keep_all 1 = Inr (out, after)"
    and pre: "prefix out sorted_src"
    and n: "(0::int) \<le> 1 \<longrightarrow> out = take (nat 1) sorted_src \<and> int (length out) \<le> 1"
    and o: "(keep_all = average \<longrightarrow>
               (\<forall>entry \<in> set (grouped two_days_result). Date_parse sample_runtime (fst entry) \<noteq> None)) \<and>
            (keep_all \<noteq> average \<longrightarrow>
               (\<forall>m \<in> set (transformedData two_days_result). Date_parse sample_runtime (date m) \<noteq> None)) \<longrightarrow>
            latest_first sample_runtime sorted_src \<and> latest_first sample_runtime out"
    by (elim exE conjE) (rule that, assumption+)
  from src have src': "src = two_days_double" by (simp add: two_days_result_def)
  from m have "set sorted_src = set two_days_double"
    unfolding src' by (metis set_mset_mset)
  with pre have sub: "set out \<subseteq> set two_days_double" using set_mono_prefix by blast
  from n l have n': "int (length out) \<le> 1" by simp
  from o d1 have o': "latest_first sample_runtime out" by simp
  from r n' o' sub have A: "\<exists>out after.
      previewData sample_runtime two_days_result keep_all 1 = Inr (out, after) \<and>
      int (length out) \<le> 1 \<and> latest_first sample_runtime out \<and> set out \<subseteq> set two_days_double"
    by blast
  have h2: "average = average \<longrightarrow> (\<forall>entry \<in> set (grouped two_days_result). snd entry \<noteq> [])"
    by (simp add: two_days_result_def)
  have d2: "(average = average \<longrightarrow>
               (\<forall>entry \<in> set (grouped two_days_result). Date_parse sample_runtime (fst entry) \<noteq> None)) \<and>
            (average \<noteq> average \<longrightarrow>
               (\<forall>m \<in> set (transformedData two_days_result). Date_parse sample_runtime (date m) \<noteq> None))"
    using p by (simp add: two_days_result_def)
  from previewData_latest_first [OF h2, of sample_runtime 1] obtain src2 sorted2 out2 after2 where
    r2: "previewData sample_runtime two_days_result average 1 = Inr (out2, after2)"
    and n2: "(0::int) \<le> 1 \<longrightarrow> out2 = take (nat 1) sorted2 \<and> int (length out2) \<le> 1"
    and o2: "(average = average \<longrightarrow>
               (\<forall>entry \<in> set (grouped two_days_result). Date_parse sample_runtime (fst entry) \<noteq> None)) \<and>
            (average \<noteq> average \<longrightarrow>
               (\<forall>m \<in> set (transformedData two_days_result). Date_parse sample_runtime (date m) \<noteq> None)) \<longrightarrow>
            latest_first sample_runtime sorted2 \<and> latest_first sample_runtime out2"
    by (elim exE conjE) (rule that, assumption+)
  from n2 l have n2': "int (length out2) \<le> 1" by simp
  from o2 d2 have o2': "latest_first sample_runtime out2" by simp
  from r2 n2' o2' have B: "\<exists>out after.
      previewData sample_runtime two_days_result average 1 = Inr (out, after) \<and>
      int (length out) \<le> 1 \<and> latest_first sample_runtime out"
    by blast
  from l ne p A B show ?thesis by (intro conjI)
qed

subsection \<open>Validation\<close>

lemma filter_Boolean_append [simp]: "filter_Boolean (xs @ ys) = filter_Boolean xs @ filter_Boolean ys"
  by (simp add: filter_Boolean_def)

lemma filter_Boolean_Cons [simp]: "x \<noteq> [] \<Longrightarrow> filter_Boolean (x # xs) = x # filter_Boolean xs"
  by (simp add: filter_Boolean_def)

lemma filter_Boolean_Nil [simp]: "filter_Boolean [] = []"
  by (simp add: filter_Boolean_def)

lemma filter_Boolean_id: "\<forall>x \<in> set xs. x \<noteq> [] \<Longrightarrow> filter_Boolean xs = xs"
  by (simp add: filter_Boolean_def)

lemma row_errors_nonempty: "\<forall>s \<in> set (row_errors rt n h). s \<noteq> []"
  by (cases h) (auto simp: row_errors_def)

lemma date_range_errors_nonempty: "\<forall>s \<in> set (date_range_errors rt ds). s \<noteq> []"
  by (simp add: date_range_errors_def)

lemma validateSingleMeasurement_errors:
  "errors (validateSingleMeasurement rt m n) = row_errors rt n (hard_fields m)"
proof -
  have "errors (validateSingleMeasurement rt m n) = filter_Boolean (row_errors rt n (hard_fields m))"
    by (simp add: validateSingleMeasurement_def Let_def row_errors_def hard_fields_def)
  then show ?thesis by (simp add: filter_Boolean_id row_errors_nonempty)
qed

lemma validateSingleMeasurement_isValid:
  "isValid (validateSingleMeasurement rt m n) = (row_errors rt n (hard_fields m) = [])"
  by (simp add: validateSingleMeasurement_def Let_def row_errors_def hard_fields_def)

lemma map_filter_map: "List.map_filter f (map g xs) = List.map_filter (\<lambda>x. f (g x)) xs"
  by (simp add: List.map_filter_def filter_map comp_def)

lemma validateDateRange_errors:
  "errors (validateDateRange rt data) = date_range_errors rt (map date data)"
  by (simp add: validateDateRange_def date_range_errors_def map_filter_map Let_def
      split: list.splits)

lemma validateMeasurements_errors_raw:
  "data \<noteq> [] \<Longrightarrow>
   errors (validateMeasurements rt data dups) =
     filter_Boolean (concat (map (\<lambda>(n, m). row_errors rt n (hard_fields m)) (List.enumerate 1 data))
                     @ date_range_errors rt (map date data))
   \<and> isValid (validateMeasurements rt data dups) =
     (concat (map (\<lambda>(n, m). row_errors rt n (hard_fields m)) (List.enumerate 1 data))
                     @ date_range_errors rt (map date data) = [])"
  by (simp add: validateMeasurements_def Let_def validateDateRange_errors
      validateSingleMeasurement_errors comp_def case_prod_unfold)

lemma enumerate_map: "List.enumerate n (map f xs) = map (\<lambda>(i, x). (i, f x)) (List.enumerate n xs)"
  by (induction xs arbitrary: n) simp_all

lemma all_errors_nonempty: "\<forall>s \<in> set (all_errors rt hs). s \<noteq> []"
  using row_errors_nonempty date_range_errors_nonempty
  by (fastforce simp: all_errors_def)

lemma validateMeasurements_errors:
  assumes "data \<noteq> []"
  shows "errors (validateMeasurements rt data dups) = all_errors rt (map hard_fields data)"
    and "isValid (validateMeasurements rt data dups) = (all_errors rt (map hard_fields data) = [])"
proof -
  have eq: "concat (map (\<lambda>(n, m). row_errors rt n (hard_fields m)) (List.enumerate 1 data))
            @ date_range_errors rt (map date data) = all_errors rt (map hard_fields data)"
    by (simp add: all_errors_def enumerate_map comp_def case_prod_unfold hard_fields_def)
  from validateMeasurements_errors_raw [OF assms, of rt dups]
  show "errors (validateMeasurements rt data dups) = all_errors rt (map hard_fields data)"
    and "isValid (validateMeasurements rt data dups) = (all_errors rt (map hard_fields data) = [])"
    unfolding eq by (simp_all add: filter_Boolean_id all_errors_nonempty)
qed

lemma validateMeasurements_empty:
  "validateMeasurements rt [] dups =
     \<lparr> errors = [''No valid measurements found in the CSV file''], warnings = [], isValid = False \<rparr>"
  by (simp add: validateMeasurements_def)

lemma isValid_iff_no_errors:
  "isValid (validateMeasurements rt data dups) = (errors (validateMeasurements rt data dups) = [])"
  by (cases "data = []") (simp_all add: validateMeasurements_empty validateMeasurements_errors)

lemma errors_depend_on_hard_fields:
  assumes "map hard_fields data = map hard_fields data'"
  shows "errors (validateMeasurements rt data dups) = errors (validateMeasurements rt data' dups')"
    and "isValid (validateMeasurements rt data dups) = isValid (validateMeasurements rt data' dups')"
proof -
  have e: "data = [] \<longleftrightarrow> data' = []" using assms by (metis map_is_Nil_conv)
  show "errors (validateMeasurements rt data dups) = errors (validateMeasurements rt data' dups')"
    using e assms by (cases "data = []") (simp_all add: validateMeasurements_empty validateMeasurements_errors)
  show "isValid (validateMeasurements rt data dups) = isValid (validateMeasurements rt data' dups')"
    using e assms by (cases "data = []") (simp_all add: validateMeasurements_empty validateMeasurements_errors)
qed

lemma row_errors_pass: "passes_hard_checks rt m \<Longrightarrow> row_errors rt n (hard_fields m) = []"
  by (simp add: passes_hard_checks_def in_hard_ranges_def row_errors_def hard_fields_def
      weightValidationSchema_def number_min_max_def)

lemma row_errors_weight_25:
  assumes "weight m = 25" "10 \<le> bmi m" "bmi m \<le> 60" "3 \<le> body_fat_percentage m"
    "body_fat_percentage m \<le> 70" "isValidDate rt (date m)"
  shows "row_errors rt n (hard_fields m) = [''Row '' @ nat_to_string n @ '': weight: Minimum weight is 30kg'']"
  using assms
  by (simp add: row_errors_def hard_fields_def weightValidationSchema_def number_min_max_def)

lemma row_errors_violation: "\<not> in_hard_ranges m \<Longrightarrow> row_errors rt n (hard_fields m) \<noteq> []"
  by (auto simp: in_hard_ranges_def row_errors_def hard_fields_def weightValidationSchema_def
      number_min_max_def)

lemma concat_single:
  assumes "i < length xss" "\<forall>j < length xss. j \<noteq> i \<longrightarrow> xss ! j = []"
  shows "concat xss = xss ! i"
proof -
  have split: "xss = take i xss @ xss ! i # drop (Suc i) xss"
    using assms(1) by (rule id_take_nth_drop)
  have a: "concat (take i xss) = []"
    using assms by (auto simp: concat_eq_Nil_conv in_set_conv_nth)
  have b: "concat (drop (Suc i) xss) = []"
    using assms by (auto simp: concat_eq_Nil_conv in_set_conv_nth)
  have "concat xss = concat (take i xss) @ xss ! i @ concat (drop (Suc i) xss)"
    by (subst split) simp
  then show ?thesis unfolding a b by simp
qed

lemma date_range_errors_valid:
  assumes "m \<in> set data" "isValidDate rt (date m)"
  shows "date_range_errors rt (map date data) = []"
proof -
  from assms(2) obtain t where "Date_parse rt (date m) = Some t"
    by (auto simp: isValidDate_def)
  with assms(1) have "t \<in> set (List.map_filter (Date_parse rt) (map date data))"
    by (force simp: List.map_filter_def)
  then show ?thesis by (auto simp: date_range_errors_def)
qed

lemma all_errors_rows:
  "\<exists>rows. length rows = length data \<and>
     (\<forall>j < length data. rows ! j = row_errors rt (Suc j) (hard_fields (data ! j))) \<and>
     all_errors rt (map hard_fields data) = concat rows @ date_range_errors rt (map date data)"
proof -
  define rows where
    "rows = map (\<lambda>(n, h). row_errors rt n h) (List.enumerate 1 (map hard_fields data))"
  have "length rows = length data" by (simp add: rows_def)
  moreover have "\<forall>j < length data. rows ! j = row_errors rt (Suc j) (hard_fields (data ! j))"
    by (simp add: rows_def nth_enumerate_eq)
  moreover have "map (\<lambda>h. snd (snd (snd h))) (map hard_fields data) = map date data"
    by (simp add: hard_fields_def)
  then have "all_errors rt (map hard_fields data) = concat rows @ date_range_errors rt (map date data)"
    unfolding all_errors_def rows_def by (simp only:)
  ultimately show ?thesis by blast
qed

lemma all_errors_single_row:
  assumes "i < length data"
    and "\<forall>j < length data. j \<noteq> i \<longrightarrow> passes_hard_checks rt (data ! j)"
    and "isValidDate rt (date (data ! i))"
  shows "all_errors rt (map hard_fields data) = row_errors rt (Suc i) (hard_fields (data ! i))"
proof -
  from all_errors_rows [of data rt] obtain rows where
    len: "length rows = length data"
    and nth: "\<forall>j < length data. rows ! j = row_errors rt (Suc j) (hard_fields (data ! j))"
    and all: "all_errors rt (map hard_fields data) = concat rows @ date_range_errors rt (map date data)"
    by blast
  have "concat rows = rows ! i"
    by (rule concat_single) (use assms len nth in \<open>auto simp: row_errors_pass\<close>)
  moreover have "date_range_errors rt (map date data) = []"
    by (rule date_range_errors_valid [of "data ! i"]) (use assms in auto)
  ultimately show ?thesis
    using assms(1) nth by (simp add: all)
qed

lemma all_errors_violation:
  assumes "m \<in> set data" "\<not> in_hard_ranges m"
  shows "all_errors rt (map hard_fields data) \<noteq> []"
proof -
  from assms(1) obtain i where i: "i < length data" "data ! i = m"
    by (auto simp: in_set_conv_nth)
  from all_errors_rows [of data rt] obtain rows where
    len: "length rows = length data"
    and nth: "\<forall>j < length data. rows ! j = row_errors rt (Suc j) (hard_fields (data ! j))"
    and all: "all_errors rt (map hard_fields data) = concat rows @ date_range_errors rt (map date data)"
    by blast
  from nth i have "rows ! i = row_errors rt (Suc i) (hard_fields m)" by simp
  with row_errors_violation [OF assms(2)] have "rows ! i \<noteq> []" by simp
  moreover have "rows ! i \<in> set rows" using i len by simp
  ultimately have "concat rows \<noteq> []" by (auto simp: concat_eq_Nil_conv)
  then show ?thesis by (simp add: all)
qed

lemma set_filter_Boolean: "set (filter_Boolean xs) = {x \<in> set xs. x \<noteq> []}"
  by (auto simp: filter_Boolean_def)
















lemma validateMeasurements_warnings:
  "data \<noteq> [] \<Longrightarrow>
   warnings (validateMeasurements rt data dups) =
     filter_Boolean
       (concat (map (\<lambda>(n, m). warnings (validateSingleMeasurement rt m n)) (List.enumerate 1 data))
        @ duplicate_warnings dups
        @ warnings (validateDateRange rt data)
        @ warnings (validateMeasurementConsistency rt data))"
  by (simp add: validateMeasurements_def Let_def duplicate_warnings_def comp_def case_prod_unfold)

lemma row_warnings_nonempty:
  "w \<in> set (warnings (validateSingleMeasurement rt m n)) \<Longrightarrow> w \<noteq> []"
proof -
  have "\<exists>ws. warnings (validateSingleMeasurement rt m n) = filter_Boolean ws"
    unfolding validateSingleMeasurement_def Let_def ValidationResult.select_convs
    by (rule exI) (rule refl)
  then show "w \<in> set (warnings (validateSingleMeasurement rt m n)) \<Longrightarrow> w \<noteq> []"
    by (auto simp: set_filter_Boolean)
qed

lemma row_warnings_subset:
  assumes "i < length data"
  shows "set (warnings (validateSingleMeasurement rt (data ! i) (Suc i)))
           \<subseteq> set (warnings (validateMeasurements rt data dups))"
proof
  fix w assume w: "w \<in> set (warnings (validateSingleMeasurement rt (data ! i) (Suc i)))"
  from assms have ne: "data \<noteq> []" by auto
  have "(Suc i, data ! i) \<in> set (List.enumerate 1 data)"
    using assms by (auto simp: in_set_enumerate_eq)
  with w have "w \<in> set (concat (map (\<lambda>(n, m). warnings (validateSingleMeasurement rt m n))
                                   (List.enumerate 1 data)))"
    by force
  with row_warnings_nonempty [OF w] show "w \<in> set (warnings (validateMeasurements rt data dups))"
    by (simp add: validateMeasurements_warnings [OF ne] set_filter_Boolean)
qed

lemma row_prefix_warning:
  "out_of_advisory_band m \<Longrightarrow>
   \<exists>w \<in> set (warnings (validateSingleMeasurement rt m n)). prefix (row_prefix n) w"
  unfolding out_of_advisory_band_def
  by (elim disjE) (simp_all add: validateSingleMeasurement_def Let_def set_filter_Boolean row_prefix_def)

lemma skeletal_warning:
  "skeletal_muscle_percentage m < 0 \<or> 100 < skeletal_muscle_percentage m \<Longrightarrow>
   row_prefix n @ ''Skeletal muscle percentage ('' @ Number_toString rt (skeletal_muscle_percentage m)
     @ ''%) seems unusual'' \<in> set (warnings (validateSingleMeasurement rt m n))"
  by (auto simp: validateSingleMeasurement_def Let_def set_filter_Boolean row_prefix_def)





text \<open>
  Claim C6. In the outcome of \<open>validateMeasurements\<close>: a record of weight 25 that is
  otherwise valid, among records that pass the hard checks, gives exactly one error, the
  line of its row with the text \<open>Minimum weight is 30kg\<close>, and an invalid outcome; a
  skeletal-muscle percentage above 100 (such as 150) gives the warning of its row, and any
  value outside an advisory band gives a warning of its row; the errors and the validity
  depend on the weight, BMI, body-fat percentage and date of the records only; a weight
  outside \<open>[30, 300]\<close>, a BMI outside \<open>[10, 60]\<close> or a body-fat percentage outside
  \<open>[3, 70]\<close> gives an error and an invalid outcome; and the outcome is valid exactly when
  there is no error.
\<close>

theorem validateMeasurements_ranges:
  "(\<forall>data dups i.
      i < length data \<and> weight (data ! i) = 25 \<and>
      10 \<le> bmi (data ! i) \<and> bmi (data ! i) \<le> 60 \<and>
      3 \<le> body_fat_percentage (data ! i) \<and> body_fat_percentage (data ! i) \<le> 70 \<and>
      isValidDate rt (date (data ! i)) \<and>
      (\<forall>j < length data. j \<noteq> i \<longrightarrow> passes_hard_checks rt (data ! j)) \<longrightarrow>
      errors (validateMeasurements rt data dups)
        = [row_prefix (Suc i) @ ''weight: Minimum weight is 30kg''] \<and>
      \<not> isValid (validateMeasurements rt data dups)) \<and>
   (\<forall>data dups i.
      i < length data \<and> 100 < skeletal_muscle_percentage (data ! i) \<longrightarrow>
      row_prefix (Suc i) @ ''Skeletal muscle percentage (''
        @ Number_toString rt (skeletal_muscle_percentage (data ! i)) @ ''%) seems unusual''
        \<in> set (warnings (validateMeasurements rt data dups))) \<and>
   (\<forall>data dups i.
      i < length data \<and> out_of_advisory_band (data ! i) \<longrightarrow>
      (\<exists>w \<in> set (warnings (validateMeasurements rt data dups)). prefix (row_prefix (Suc i)) w)) \<and>
   (\<forall>data data' dups dups'.
      map hard_fields data = map hard_fields data' \<longrightarrow>
      errors (validateMeasurements rt data dups) = errors (validateMeasurements rt data' dups') \<and>
      isValid (validateMeasurements rt data dups) = isValid (validateMeasurements rt data' dups')) \<and>
   (\<forall>data dups.
      (\<exists>m \<in> set data. \<not> in_hard_ranges m) \<longrightarrow>
      errors (validateMeasurements rt data dups) \<noteq> [] \<and>
      \<not> isValid (validateMeasurements rt data dups)) \<and>
   (\<forall>data dups.
      isValid (validateMeasurements rt data dups) = (errors (validateMeasurements rt data dups) = []))"
proof (intro conjI allI impI)
  fix data :: "TransformedMeasurement list" and dups :: "DuplicateDetection list" and i
  assume a: "i < length data \<and> weight (data ! i) = 25 \<and>
      10 \<le> bmi (data ! i) \<and> bmi (data ! i) \<le> 60 \<and>
      3 \<le> body_fat_percentage (data ! i) \<and> body_fat_percentage (data ! i) \<le> 70 \<and>
      isValidDate rt (date (data ! i)) \<and>
      (\<forall>j < length data. j \<noteq> i \<longrightarrow> passes_hard_checks rt (data ! j))"
  then have ne: "data \<noteq> []" by auto
  from a have "all_errors rt (map hard_fields data) = row_errors rt (Suc i) (hard_fields (data ! i))"
    by (intro all_errors_single_row) auto
  also from a have "\<dots> = [''Row '' @ nat_to_string (Suc i) @ '': weight: Minimum weight is 30kg'']"
    by (intro row_errors_weight_25) auto
  finally have e: "all_errors rt (map hard_fields data)
      = [row_prefix (Suc i) @ ''weight: Minimum weight is 30kg'']"
    by (simp add: row_prefix_def)
  show "errors (validateMeasurements rt data dups)
        = [row_prefix (Suc i) @ ''weight: Minimum weight is 30kg'']"
    by (simp only: validateMeasurements_errors(1) [OF ne] e)
  show "\<not> isValid (validateMeasurements rt data dups)"
    by (simp add: validateMeasurements_errors(2) [OF ne] e)
next
  fix data :: "TransformedMeasurement list" and dups :: "DuplicateDetection list" and i
  assume a: "i < length data \<and> 100 < skeletal_muscle_percentage (data ! i)"
  then have "row_prefix (Suc i) @ ''Skeletal muscle percentage (''
        @ Number_toString rt (skeletal_muscle_percentage (data ! i)) @ ''%) seems unusual''
        \<in> set (warnings (validateSingleMeasurement rt (data ! i) (Suc i)))"
    by (intro skeletal_warning) simp
  with row_warnings_subset [of i data rt dups] a
  show "row_prefix (Suc i) @ ''Skeletal muscle percentage (''
        @ Number_toString rt (skeletal_muscle_percentage (data ! i)) @ ''%) seems unusual''
        \<in> set (warnings (validateMeasurements rt data dups))"
    by (meson subsetD)
next
  fix data :: "TransformedMeasurement list" and dups :: "DuplicateDetection list" and i
  assume a: "i < length data \<and> out_of_advisory_band (data ! i)"
  then obtain w where "w \<in> set (warnings (validateSingleMeasurement rt (data ! i) (Suc i)))"
    "prefix (row_prefix (Suc i)) w"
    using row_prefix_warning [of "data ! i" rt "Suc i"] by blast
  with row_warnings_subset [of i data rt dups] a
  show "\<exists>w \<in> set (warnings (validateMeasurements rt data dups)). prefix (row_prefix (Suc i)) w"
    by (meson subsetD)
next
  fix data data' :: "TransformedMeasurement list" and dups dups' :: "DuplicateDetection list"
  assume "map hard_fields data = map hard_fields data'"
  then show "errors (validateMeasurements rt data dups) = errors (validateMeasurements rt data' dups')"
    and "isValid (validateMeasurements rt data dups) = isValid (validateMeasurements rt data' dups')"
    by (rule errors_depend_on_hard_fields)+
next
  fix data :: "TransformedMeasurement list" and dups :: "DuplicateDetection list"
  assume a: "\<exists>m \<in> set data. \<not> in_hard_ranges m"
  then have ne: "data \<noteq> []" by auto
  from a have e: "all_errors rt (map hard_fields data) \<noteq> []"
    using all_errors_violation by blast
  show "errors (validateMeasurements rt data dups) \<noteq> []"
    by (simp only: validateMeasurements_errors(1) [OF ne] e not_False_eq_True)
  show "\<not> isValid (validateMeasurements rt data dups)"
    by (simp only: validateMeasurements_errors(2) [OF ne] e not_False_eq_True)
next
  fix data :: "TransformedMeasurement list" and dups :: "DuplicateDetection list"
  show "isValid (validateMeasurements rt data dups) = (errors (validateMeasurements rt data dups) = [])"
    by (rule isValid_iff_no_errors)
qed

lemma isValidDate_sample: "isValidDate sample_runtime ''2024-01-01''"
  by (simp add: isValidDate_def sample_runtime_def iso_shape_def is_digit_def)

lemma nat_to_string_small: "nat_to_string (Suc 0) = ''1''" "nat_to_string (Suc (Suc 0)) = ''2''"
  "nat_to_string 150 = ''150''"
  by (simp_all add: nat_to_string.simps digit_char_def)

theorem validateMeasurements_ranges_witness:
  "isValidDate sample_runtime ''2024-01-01'' \<and>
   errors (validateMeasurements sample_runtime [low_weight_record] [])
     = [''Row 1: weight: Minimum weight is 30kg''] \<and>
   \<not> isValid (validateMeasurements sample_runtime [low_weight_record] []) \<and>
   ''Row 1: Skeletal muscle percentage (150%) seems unusual''
     \<in> set (warnings (validateMeasurements sample_runtime [low_weight_record] [])) \<and>
   out_of_advisory_band low_weight_record \<and>
   \<not> in_hard_ranges low_weight_record \<and>
   hard_fields low_weight_record = hard_fields (sample_measurement ''2024-01-01'' 25) \<and>
   errors (validateMeasurements sample_runtime [sample_measurement ''2024-01-01'' 25] [])
     = [''Row 1: weight: Minimum weight is 30kg'']"
proof -
  note T = validateMeasurements_ranges [of sample_runtime]
  have p1: "0 < length [low_weight_record] \<and> weight ([low_weight_record] ! 0) = 25 \<and>
      10 \<le> bmi ([low_weight_record] ! 0) \<and> bmi ([low_weight_record] ! 0) \<le> 60 \<and>
      3 \<le> body_fat_percentage ([low_weight_record] ! 0) \<and>
      body_fat_percentage ([low_weight_record] ! 0) \<le> 70 \<and>
      isValidDate sample_runtime (date ([low_weight_record] ! 0)) \<and>
      (\<forall>j < length [low_weight_record]. j \<noteq> 0 \<longrightarrow>
         passes_hard_checks sample_runtime ([low_weight_record] ! j))"
    using isValidDate_sample by (simp add: low_weight_record_def sample_measurement_def)
  have p2: "0 < length [low_weight_record] \<and> 100 < skeletal_muscle_percentage ([low_weight_record] ! 0)"
    by (simp add: low_weight_record_def)
  from T [THEN conjunct1, rule_format, OF p1, of "[]"]
  have e: "errors (validateMeasurements sample_runtime [low_weight_record] [])
             = [''Row 1: weight: Minimum weight is 30kg'']"
    and v: "\<not> isValid (validateMeasurements sample_runtime [low_weight_record] [])"
    by (simp_all add: row_prefix_def nat_to_string_small)
  from T [THEN conjunct2, THEN conjunct1, rule_format, OF p2, of "[]"]
  have w: "''Row 1: Skeletal muscle percentage (150%) seems unusual''
     \<in> set (warnings (validateMeasurements sample_runtime [low_weight_record] []))"
    by (simp add: row_prefix_def nat_to_string_small low_weight_record_def sample_runtime_def)
  have b: "out_of_advisory_band low_weight_record"
    by (simp add: out_of_advisory_band_def low_weight_record_def)
  have r: "\<not> in_hard_ranges low_weight_record"
    by (simp add: in_hard_ranges_def low_weight_record_def sample_measurement_def)
  have hf: "hard_fields low_weight_record = hard_fields (sample_measurement ''2024-01-01'' 25)"
    by (simp add: hard_fields_def low_weight_record_def sample_measurement_def)
  then have "map hard_fields [low_weight_record]
      = map hard_fields [sample_measurement ''2024-01-01'' 25]"
    by simp
  from T [THEN conjunct2, THEN conjunct2, THEN conjunct2, THEN conjunct1, THEN spec, THEN spec,
          THEN spec, THEN spec, THEN mp, OF this, of "[]" "[]"] e
  have e': "errors (validateMeasurements sample_runtime [sample_measurement ''2024-01-01'' 25] [])
     = [''Row 1: weight: Minimum weight is 30kg'']"
    by simp
  from isValidDate_sample e v w b r hf e' show ?thesis by simp
qed



end
